theory Spec2Isabelle
  imports Main
begin

section \<open>Cell values, errors and strings\<close>

text \<open>
  A cell of a grid is a Python scalar. The null-like scalars recognised by \<open>pd.isna\<close>
  are \<open>None\<close> and the float \<open>NaN\<close>; every other scalar is a text or a (finite) number.
\<close>

datatype cell = CNone | CNaN | CStr string | CNum int

fun isna :: "cell \<Rightarrow> bool" where
  "isna CNone = True"
| "isna CNaN = True"
| "isna (CStr s) = False"
| "isna (CNum n) = False"

text \<open>
  Every \<open>raise\<close> of the source is a value of \<open>error\<close>. The wrapper
  \<open>except Exception as e: raise Exception(f"Failed: <name>. {e}")\<close> that closes every
  method is the constructor \<open>Failed\<close>, which keeps the method's name and the inner error.
\<close>

datatype error =
    Empty_row                   \<comment> \<open>ValueError: a row of the grid is empty\<close>
  | Unequal_length              \<comment> \<open>ValueError: the rows do not have one common length\<close>
  | Dict_unequal_length         \<comment> \<open>ValueError: the values of the dict differ in length\<close>
  | Bad_input_type              \<comment> \<open>ValueError: neither a DataFrame nor a dict\<close>
  | No_match                    \<comment> \<open>AttributeError: \<open>re.search\<close> returned \<open>None\<close>\<close>
  | Key_error_col string        \<comment> \<open>KeyError in \<open>col_to_order\<close>\<close>
  | Key_error_order nat         \<comment> \<open>KeyError in \<open>order_to_col\<close>\<close>
  | Token_error                 \<comment> \<open>the token request failed\<close>
  | Sheet_query_error           \<comment> \<open>the sheet query failed\<close>
  | Key_error_sheet string      \<comment> \<open>KeyError: unknown sheet name\<close>
  | Zero_division               \<comment> \<open>ZeroDivisionError\<close>
  | Range_step_zero             \<comment> \<open>ValueError: \<open>range()\<close> with step 0\<close>
  | Transport_error             \<comment> \<open>the HTTP call or the decoding of its answer raised\<close>
  | Payload_too_large           \<comment> \<open>remote code 90227 in \<open>write_multi_data\<close>\<close>
  | Payload_too_large_batch int \<comment> \<open>remote code 90227 in \<open>batch_write_multi_data\<close>, with the batch size\<close>
  | Request_failed int string   \<comment> \<open>any other non-zero remote code, with code and message\<close>
  | Index_error                 \<comment> \<open>IndexError: \<open>data_all[0]\<close> on an empty list\<close>
  | Frame_shape_error nat nat   \<comment> \<open>ValueError of the DataFrame constructor: columns passed, columns found\<close>
  | Key_error_labels "cell list" \<comment> \<open>KeyError: requested labels that are not columns\<close>
  | Failed string error

subsection \<open>Characters, \<open>str\<close> and \<open>int\<close>\<close>

text \<open>
  A Python string is modelled as a list of characters with code points below 256. On
  these, \<open>[A-Za-z]\<close> is the ASCII letters, \<open>\d\<close> is the ten ASCII digits, and
  \<open>upper()\<close> of a letter of the pattern is its ASCII capital.
\<close>

definition is_upper :: "char \<Rightarrow> bool" where
  "is_upper c = (let n = (of_char c :: nat) in 65 \<le> n \<and> n \<le> 90)"

definition is_lower :: "char \<Rightarrow> bool" where
  "is_lower c = (let n = (of_char c :: nat) in 97 \<le> n \<and> n \<le> 122)"

definition is_letter :: "char \<Rightarrow> bool" where
  \<comment> \<open>the character class \<open>[A-Za-z]\<close>\<close>
  "is_letter c = (is_upper c \<or> is_lower c)"

definition is_digit :: "char \<Rightarrow> bool" where
  \<comment> \<open>the character class \<open>\d\<close>, on code points below 256\<close>
  "is_digit c = (let n = (of_char c :: nat) in 48 \<le> n \<and> n \<le> 57)"

definition upper_char :: "char \<Rightarrow> char" where
  "upper_char c = (if is_lower c then char_of ((of_char c :: nat) - 32) else c)"

definition upper :: "string \<Rightarrow> string" where
  \<comment> \<open>\<open>str.upper()\<close>\<close>
  "upper s = map upper_char s"

definition digit_char :: "nat \<Rightarrow> char" where
  "digit_char d = char_of (48 + d)"

fun str_nat :: "nat \<Rightarrow> string" where
  \<comment> \<open>\<open>str(n)\<close> for \<open>n \<ge> 0\<close>\<close>
  "str_nat n = (if n < 10 then [digit_char n] else str_nat (n div 10) @ [digit_char (n mod 10)])"

declare str_nat.simps [simp del]

definition str_int :: "int \<Rightarrow> string" where
  \<comment> \<open>\<open>str(i)\<close>, as the f-strings format an integer\<close>
  "str_int i = (if i < 0 then CHR ''-'' # str_nat (nat (- i)) else str_nat (nat i))"

definition int_of_digits :: "string \<Rightarrow> nat" where
  \<comment> \<open>\<open>int(s)\<close> for a string of decimal digits\<close>
  "int_of_digits s = fold (\<lambda>c n. 10 * n + ((of_char c :: nat) - 48)) s 0"

subsection \<open>The pattern \<open>([A-Za-z]+)(\d+)\<close>\<close>

text \<open>
  \<open>re.search\<close> tries every start position from the left. At one position the greedy
  \<open>[A-Za-z]+\<close> takes the whole run of letters (a shorter run would have to be followed by a
  digit, and is followed by a letter), and \<open>\d+\<close> takes the whole run of digits after it.
  The result is the pair of groups 1 and 2, or \<open>None\<close>.
\<close>

definition match_here :: "string \<Rightarrow> (string \<times> string) option" where
  "match_here s =
     (let letters = takeWhile is_letter s;
          digits = takeWhile is_digit (dropWhile is_letter s)
      in if letters \<noteq> [] \<and> digits \<noteq> [] then Some (letters, digits) else None)"

fun re_search :: "string \<Rightarrow> (string \<times> string) option" where
  "re_search [] = None"
| "re_search (c # cs) =
     (case match_here (c # cs) of Some g \<Rightarrow> Some g | None \<Rightarrow> re_search cs)"

section \<open>Column index: \<open>generate_col_order_info\<close>\<close>

definition A_Z_list :: "string list" where
  "A_Z_list = map (\<lambda>i. [char_of (65 + i)]) [0..<26]"

definition AA_ZZ_list :: "string list" where
  "AA_ZZ_list = concat (map (\<lambda>i. map (\<lambda>j. [char_of (65 + i), char_of (65 + j)]) [0..<26]) [0..<26])"

definition A_ZZ_list :: "string list" where
  "A_ZZ_list = A_Z_list @ AA_ZZ_list"

text \<open>
  The two dictionaries are comprehensions over \<open>enumerate(A_ZZ_list)\<close>: the entries are
  stored one after the other, a later entry for the same key replacing an earlier one.
\<close>

definition col_to_order :: "string \<rightharpoonup> nat" where
  "col_to_order = fold (\<lambda>(i, col) d. d(col \<mapsto> i)) (enumerate 0 A_ZZ_list) Map.empty"

definition order_to_col :: "nat \<rightharpoonup> string" where
  "order_to_col = fold (\<lambda>(i, col) d. d(i \<mapsto> col)) (enumerate 0 A_ZZ_list) Map.empty"

section \<open>Range computation: \<open>complete_data_range\<close>\<close>

text \<open>
  The check of the rows: the loop raises at the first empty row and collects the lengths
  of the others.
\<close>

fun collect_elem_len :: "'a list list \<Rightarrow> nat list \<Rightarrow> error + nat list" where
  "collect_elem_len [] elem_len = Inr elem_len"
| "collect_elem_len (elem # rest) elem_len =
     (if elem = [] then Inl Empty_row else collect_elem_len rest (elem_len @ [length elem]))"

definition check_2d_list :: "'a list list \<Rightarrow> error option" where
  \<comment> \<open>the loop, then \<open>len(set(elem_len)) != 1\<close>; \<open>None\<close> when the grid passes\<close>
  "check_2d_list input_data =
     (case collect_elem_len input_data [] of
        Inl e \<Rightarrow> Some e
      | Inr elem_len \<Rightarrow> if length (remdups elem_len) \<noteq> 1 then Some Unequal_length else None)"

definition complete_data_range :: "string \<Rightarrow> 'a list list \<Rightarrow> error + string" where
  "complete_data_range start_loc input_data =
     (case re_search start_loc of
        None \<Rightarrow> Inl (Failed ''complete_data_range'' No_match)
      | Some (g1, g2) \<Rightarrow>
          let start_letter = upper g1; start_number = int_of_digits g2 in
          (case check_2d_list input_data of
             Some e \<Rightarrow> Inl (Failed ''complete_data_range'' e)
           | None \<Rightarrow>
               let row_num = length input_data; col_num = length (input_data ! 0) in
               (case col_to_order start_letter of
                  None \<Rightarrow> Inl (Failed ''complete_data_range'' (Key_error_col start_letter))
                | Some start_order \<Rightarrow>
                    let end_letter_order = start_order + col_num - 1 in
                    (case order_to_col end_letter_order of
                       None \<Rightarrow> Inl (Failed ''complete_data_range'' (Key_error_order end_letter_order))
                     | Some end_letter \<Rightarrow>
                         let end_number = start_number + row_num - 1 in
                         Inr (start_letter @ str_nat start_number @ '':'' @ end_letter @ str_nat end_number)))))"

section \<open>Grid normalisation: \<open>to_2d_list\<close> and the null-value step\<close>

text \<open>
  The three kinds of input the write methods accept. A DataFrame is its column labels and
  its rows (\<open>columns.tolist()\<close>, \<open>values.tolist()\<close>); a dict is its items in insertion
  order; anything else is taken as a list of lists.
\<close>

datatype input_data =
    DataFrame "cell list" "cell list list"
  | Dict "(cell \<times> cell list) list"
  | Rows "cell list list"

definition to_2d_list :: "input_data \<Rightarrow> error + cell list list" where
  "to_2d_list input_data =
     (case input_data of
        DataFrame col_list value_list \<Rightarrow> Inr (col_list # value_list)
      | Dict items \<Rightarrow>
          let key_list = map fst items;
              value_list = map snd items;
              value_lengths = map length value_list
          in if length (remdups value_lengths) \<noteq> 1
             then Inl (Failed ''to_2d_list'' Dict_unequal_length)
             else let sample_num = value_lengths ! 0
                  in Inr (key_list # map (\<lambda>i. map (\<lambda>val. val ! i) value_list) [0..<sample_num])
      | Rows rows \<Rightarrow> Inl (Failed ''to_2d_list'' Bad_input_type))"

definition format_input :: "input_data \<Rightarrow> error + cell list list" where
  \<comment> \<open>\<open>if isinstance(input_data, (pd.DataFrame, dict)): ... else: formatted_data = input_data\<close>\<close>
  "format_input input_data =
     (case input_data of Rows rows \<Rightarrow> Inr rows | _ \<Rightarrow> to_2d_list input_data)"

definition sanitize :: "cell \<Rightarrow> cell" where
  \<comment> \<open>\<open>"" if pd.isna(item) else item\<close>\<close>
  "sanitize item = (if isna item then CStr [] else item)"

definition standard_data :: "cell list list \<Rightarrow> cell list list" where
  "standard_data formatted_data = map (map sanitize) formatted_data"

section \<open>The remote service and the trace of calls\<close>

text \<open>
  The remote side is a parameter. The token request answers with a token or fails; the
  sheet query answers with the dictionary from sheet names to sheet ids or fails; the
  answer to a \<open>PUT\<close> or a \<open>GET\<close> may depend on how many calls of that kind came before
  and on the request. \<open>No_response\<close> and \<open>None\<close> stand for a call that raises (the
  connection, the HTTP status, or the decoding of the body).

  Every method returns, with its result, the trace of the calls it issued, in order:
  an event records the request and the answer.
\<close>

datatype response = Response int string | No_response

record remote =
  token_reply :: "string option"
  sheets_reply :: "(string \<rightharpoonup> string) option"
  put_reply :: "nat \<Rightarrow> string \<Rightarrow> cell list list \<Rightarrow> response"
  get_reply :: "nat \<Rightarrow> string \<Rightarrow> cell list list option"

datatype event =
    Token_request
  | Sheet_query
  | Put string "cell list list" response
  | Get string "cell list list option"
  | Sleep nat

fun is_put :: "event \<Rightarrow> bool" where
  "is_put (Put rng vals reply) = True"
| "is_put ev = False"

fun is_get :: "event \<Rightarrow> bool" where
  "is_get (Get url reply) = True"
| "is_get ev = False"

definition puts_issued :: "event list \<Rightarrow> nat" where
  "puts_issued tr = length (filter is_put tr)"

definition gets_issued :: "event list \<Rightarrow> nat" where
  "gets_issued tr = length (filter is_get tr)"

definition connect :: "remote \<Rightarrow> string \<Rightarrow> event list \<times> (error + string)" where
  \<comment> \<open>\<open>get_tenant_access_token()\<close>, then \<open>get_name_id_dict(spreadsheet_token)[sheet_name]\<close>\<close>
  "connect R sheet_name =
     (case token_reply R of
        None \<Rightarrow> ([Token_request], Inl (Failed ''get_tenant_access_token'' Token_error))
      | Some bearer_token \<Rightarrow>
          (case sheets_reply R of
             None \<Rightarrow> ([Token_request, Sheet_query], Inl (Failed ''get_name_id_dict'' Sheet_query_error))
           | Some name_id_dict \<Rightarrow>
               (case name_id_dict sheet_name of
                  None \<Rightarrow> ([Token_request, Sheet_query], Inl (Key_error_sheet sheet_name))
                | Some sheet_id \<Rightarrow> ([Token_request, Sheet_query], Inr sheet_id))))"

section \<open>Python's \<open>range\<close> and slices\<close>

function py_range :: "int \<Rightarrow> int \<Rightarrow> int \<Rightarrow> int list" where
  "py_range start stop step =
     (if 0 < step then (if start < stop then start # py_range (start + step) stop step else [])
      else if step < 0 then (if stop < start then start # py_range (start + step) stop step else [])
      else [])"
  by pat_completeness auto
termination
  by (relation "measure (\<lambda>(start, stop, step). nat (if 0 < step then stop - start else start - stop))") auto

declare py_range.simps [simp del]

definition py_slice :: "'a list \<Rightarrow> int \<Rightarrow> int \<Rightarrow> 'a list" where
  \<comment> \<open>\<open>xs[a:b]\<close>: a negative bound counts from the end, both are clipped to the list\<close>
  "py_slice xs a b =
     (let n = int (length xs);
          a' = (if a < 0 then max 0 (a + n) else min a n);
          b' = (if b < 0 then max 0 (b + n) else min b n)
      in take (nat (b' - a')) (drop (nat a') xs))"

section \<open>Writing: \<open>write_multi_data\<close> and \<open>batch_write_multi_data\<close>\<close>

definition write_multi_data ::
  "remote \<Rightarrow> string \<Rightarrow> string \<Rightarrow> input_data \<Rightarrow> event list \<times> (error + unit)" where
  "write_multi_data R sheet_name start_loc input_data =
     (case format_input input_data of
        Inl e \<Rightarrow> ([], Inl (Failed ''write_multi_data'' e))
      | Inr formatted_data \<Rightarrow>
     (case check_2d_list formatted_data of
        Some e \<Rightarrow> ([], Inl (Failed ''write_multi_data'' e))
      | None \<Rightarrow>
     (let standard = standard_data formatted_data in
     (case connect R sheet_name of
        (tr, Inl e) \<Rightarrow> (tr, Inl (Failed ''write_multi_data'' e))
      | (tr, Inr sheet_id) \<Rightarrow>
     (case complete_data_range start_loc standard of
        Inl e \<Rightarrow> (tr, Inl (Failed ''write_multi_data'' e))
      | Inr data_range \<Rightarrow>
     (let rng = sheet_id @ ''!'' @ data_range;
          reply = put_reply R (puts_issued tr) rng standard;
          tr1 = tr @ [Put rng standard reply]
      in case reply of
           No_response \<Rightarrow> (tr1, Inl (Failed ''write_multi_data'' Transport_error))
         | Response code msg \<Rightarrow>
             if code \<noteq> 0
             then (if code = 90227
                   then (tr1, Inl (Failed ''write_multi_data'' Payload_too_large))
                   else (tr1, Inl (Failed ''write_multi_data'' (Request_failed code msg))))
             else (tr1, Inr ())))))))"

definition max_attempts :: nat where
  "max_attempts = 5"

text \<open>
  The inner loop \<open>for attempt in range(max_attempts)\<close> of one batch: the list is the
  attempts still to run.
\<close>

fun put_attempts ::
  "remote \<Rightarrow> int \<Rightarrow> string \<Rightarrow> cell list list \<Rightarrow> nat list \<Rightarrow> event list \<Rightarrow> event list \<times> (error + unit)" where
  "put_attempts R batch_size rng current_data [] tr = (tr, Inr ())"
| "put_attempts R batch_size rng current_data (attempt # rest) tr =
     (let reply = put_reply R (puts_issued tr) rng current_data;
          tr1 = tr @ [Put rng current_data reply]
      in case reply of
           No_response \<Rightarrow> (tr1, Inl Transport_error)
         | Response code msg \<Rightarrow>
             if code = 0 then (tr1, Inr ())
             else if code = 90227 then (tr1, Inl (Payload_too_large_batch batch_size))
             else if attempt < max_attempts - 1
             then put_attempts R batch_size rng current_data rest (tr1 @ [Sleep (10 * (attempt + 1))])
             else (tr1, Inl (Request_failed code msg)))"

text \<open>The outer loop \<open>for current_start_idx in range(0, total_rows, batch_size)\<close>.\<close>

fun write_batches ::
  "remote \<Rightarrow> int \<Rightarrow> string \<Rightarrow> string \<Rightarrow> nat \<Rightarrow> cell list list \<Rightarrow> int list \<Rightarrow> event list
   \<Rightarrow> event list \<times> (error + unit)" where
  "write_batches R batch_size sheet_id start_letter start_number standard [] tr = (tr, Inr ())"
| "write_batches R batch_size sheet_id start_letter start_number standard (current_start_idx # rest) tr =
     (let total_rows = int (length standard);
          current_end_idx = min (current_start_idx + batch_size) total_rows;
          current_data = py_slice standard current_start_idx current_end_idx
      in case complete_data_range
                (start_letter @ str_int (int start_number + current_start_idx)) current_data of
           Inl e \<Rightarrow> (tr, Inl e)
         | Inr current_data_range \<Rightarrow>
             (case put_attempts R batch_size (sheet_id @ ''!'' @ current_data_range) current_data
                     [0..<max_attempts] tr of
                (tr', Inl e) \<Rightarrow> (tr', Inl e)
              | (tr', Inr u) \<Rightarrow>
                  write_batches R batch_size sheet_id start_letter start_number standard rest tr'))"

definition batch_num :: "int \<Rightarrow> int \<Rightarrow> error + int" where
  \<comment> \<open>\<open>(total_rows // batch_size) + (1 if total_rows % batch_size != 0 else 0)\<close>\<close>
  "batch_num total_rows batch_size =
     (if batch_size = 0 then Inl Zero_division
      else Inr (total_rows div batch_size + (if total_rows mod batch_size \<noteq> 0 then 1 else 0)))"

definition batch_write_multi_data ::
  "remote \<Rightarrow> string \<Rightarrow> string \<Rightarrow> input_data \<Rightarrow> int \<Rightarrow> event list \<times> (error + unit)" where
  "batch_write_multi_data R sheet_name start_loc input_data batch_size =
     (case format_input input_data of
        Inl e \<Rightarrow> ([], Inl (Failed ''batch_write_multi_data'' e))
      | Inr formatted_data \<Rightarrow>
     (case check_2d_list formatted_data of
        Some e \<Rightarrow> ([], Inl (Failed ''batch_write_multi_data'' e))
      | None \<Rightarrow>
     (let standard = standard_data formatted_data in
     (case connect R sheet_name of
        (tr, Inl e) \<Rightarrow> (tr, Inl (Failed ''batch_write_multi_data'' e))
      | (tr, Inr sheet_id) \<Rightarrow>
     (case re_search start_loc of
        None \<Rightarrow> (tr, Inl (Failed ''batch_write_multi_data'' No_match))
      | Some (g1, g2) \<Rightarrow>
     (let start_letter = upper g1;
          start_number = int_of_digits g2;
          total_rows = int (length standard)
      in case batch_num total_rows batch_size of
           Inl e \<Rightarrow> (tr, Inl (Failed ''batch_write_multi_data'' e))
         | Inr n \<Rightarrow>
             (case write_batches R batch_size sheet_id start_letter start_number standard
                     (py_range 0 total_rows batch_size) tr of
                (tr', Inl e) \<Rightarrow> (tr', Inl (Failed ''batch_write_multi_data'' e))
              | (tr', Inr u) \<Rightarrow> (tr', Inr ()))))))))"

section \<open>Reading: \<open>load_sheet_data_to_df\<close>\<close>

definition data_range_text :: "string \<Rightarrow> int \<Rightarrow> string \<Rightarrow> int \<Rightarrow> string" where
  \<comment> \<open>\<open>f"{col_id_start}{current_start_id}:{col_id_end}{current_end_id}"\<close>\<close>
  "data_range_text col_id_start current_start_id col_id_end current_end_id =
     col_id_start @ str_int current_start_id @ '':'' @ col_id_end @ str_int current_end_id"

definition read_windows :: "int \<Rightarrow> int \<Rightarrow> int \<Rightarrow> (int \<times> int) list" where
  \<comment> \<open>the pairs \<open>(current_start_id, current_end_id)\<close> of the loop that builds \<open>url_list\<close>\<close>
  "read_windows row_id_start row_id_end batch_size =
     map (\<lambda>current_start_id. (current_start_id, min (current_start_id + batch_size - 1) row_id_end))
       (py_range row_id_start (row_id_end + 1) batch_size)"

text \<open>
  A URL is kept as its \<open>data_loc\<close>, the text \<open><sheet_id>!<data_range>\<close>; the rest of the
  URL is the same for every request of one call.
\<close>

definition url_list :: "string \<Rightarrow> string \<Rightarrow> string \<Rightarrow> (int \<times> int) list \<Rightarrow> string list" where
  "url_list sheet_id col_id_start col_id_end windows =
     map (\<lambda>(current_start_id, current_end_id).
            sheet_id @ ''!'' @ data_range_text col_id_start current_start_id col_id_end current_end_id)
       windows"

definition head_section_url :: "string \<Rightarrow> string \<Rightarrow> string \<Rightarrow> string" where
  "head_section_url sheet_id col_id_start col_id_end =
     sheet_id @ ''!'' @ col_id_start @ ''1:'' @ col_id_end @ ''1''"

definition max_retries :: nat where
  "max_retries = 5"

definition load_header ::
  "remote \<Rightarrow> string \<Rightarrow> event list \<Rightarrow> event list \<times> (error + cell list list)" where
  \<comment> \<open>the header row is requested once; a failure is raised at once\<close>
  "load_header R url tr =
     (let reply = get_reply R (gets_issued tr) url;
          tr1 = tr @ [Get url reply]
      in case reply of
           None \<Rightarrow> (tr1, Inl Transport_error)
         | Some head_collected \<Rightarrow> (tr1, Inr head_collected))"

text \<open>The loop \<open>for attempt in range(max_retries)\<close> around the request of one window.\<close>

fun get_attempts ::
  "remote \<Rightarrow> string \<Rightarrow> nat list \<Rightarrow> event list \<Rightarrow> cell list list
   \<Rightarrow> event list \<times> (error + cell list list)" where
  "get_attempts R url [] tr data_all = (tr, Inr data_all)"
| "get_attempts R url (attempt # rest) tr data_all =
     (let reply = get_reply R (gets_issued tr) url;
          tr1 = tr @ [Get url reply]
      in case reply of
           Some data_collected \<Rightarrow> (tr1, Inr (data_all @ data_collected))
         | None \<Rightarrow>
             if attempt < max_retries - 1
             then get_attempts R url rest (tr1 @ [Sleep (10 * (attempt + 1))]) data_all
             else (tr1, Inl Transport_error))"

fun read_batches ::
  "remote \<Rightarrow> string list \<Rightarrow> event list \<Rightarrow> cell list list \<Rightarrow> event list \<times> (error + cell list list)" where
  "read_batches R [] tr data_all = (tr, Inr data_all)"
| "read_batches R (url # rest) tr data_all =
     (case get_attempts R url [0..<max_retries] tr data_all of
        (tr', Inl e) \<Rightarrow> (tr', Inl e)
      | (tr', Inr data_all') \<Rightarrow> read_batches R rest tr' data_all')"

definition load_data_all ::
  "remote \<Rightarrow> string \<Rightarrow> int \<Rightarrow> int \<Rightarrow> string \<Rightarrow> string \<Rightarrow> int
   \<Rightarrow> event list \<times> (error + cell list list)" where
  \<comment> \<open>\<open>load_sheet_data_to_df\<close> up to the end of the reading loop: the value of \<open>data_all\<close>\<close>
  "load_data_all R sheet_name row_id_start row_id_end col_id_start col_id_end batch_size =
     (case connect R sheet_name of
        (tr, Inl e) \<Rightarrow> (tr, Inl e)
      | (tr, Inr sheet_id) \<Rightarrow>
          if batch_size = 0 then (tr, Inl Range_step_zero)
          else
            let urls = url_list sheet_id col_id_start col_id_end
                         (read_windows row_id_start row_id_end batch_size)
            in (case (if 1 < row_id_start
                      then load_header R (head_section_url sheet_id col_id_start col_id_end) tr
                      else (tr, Inr [])) of
                  (tr1, Inl e) \<Rightarrow> (tr1, Inl (Failed ''load_sheet_data_to_df'' e))
                | (tr1, Inr head_collected) \<Rightarrow>
                    (case read_batches R urls tr1 head_collected of
                       (tr2, Inl e) \<Rightarrow> (tr2, Inl (Failed ''load_sheet_data_to_df'' e))
                     | (tr2, Inr data_all) \<Rightarrow> (tr2, Inr data_all))))"

subsection \<open>The DataFrame operations of the cleanup\<close>

text \<open>
  A frame is its column labels and its rows, every row as long as the labels.
  \<open>pd.DataFrame(data_values, columns = colname_list)\<close> on a list of lists fills a short
  row with \<open>None\<close> up to the longest row and raises when that width is not the number of
  labels; an empty list of rows gives the empty frame with the labels.
\<close>

record frame =
  frame_columns :: "cell list"
  frame_values :: "cell list list"

definition data_frame :: "cell list list \<Rightarrow> cell list \<Rightarrow> error + frame" where
  "data_frame data_values colname_list =
     (if data_values = [] then Inr \<lparr>frame_columns = colname_list, frame_values = []\<rparr>
      else
        let width = fold max (map length data_values) 0
        in if width \<noteq> length colname_list
           then Inl (Frame_shape_error (length colname_list) width)
           else Inr \<lparr>frame_columns = colname_list,
                     frame_values = map (\<lambda>row. row @ replicate (width - length row) CNone) data_values\<rparr>)"

definition dropna_rows :: "frame \<Rightarrow> frame" where
  \<comment> \<open>\<open>dropna(axis = 0, how = 'all')\<close>\<close>
  "dropna_rows df = df\<lparr>frame_values := filter (\<lambda>row. \<not> list_all isna row) (frame_values df)\<rparr>"

definition to_drop :: "cell list \<Rightarrow> cell list" where
  \<comment> \<open>\<open>[col for col in columns if col is None or col == '' or pd.isna(col)]\<close>\<close>
  "to_drop cols = filter (\<lambda>col. col = CNone \<or> col = CStr [] \<or> isna col) cols"

definition select_columns :: "nat list \<Rightarrow> frame \<Rightarrow> frame" where
  \<comment> \<open>the frame made of the columns at the given positions, in that order\<close>
  "select_columns idx df =
     \<lparr>frame_columns = map (\<lambda>j. frame_columns df ! j) idx,
      frame_values = map (\<lambda>row. map (\<lambda>j. row ! j) idx) (frame_values df)\<rparr>"

definition drop_columns :: "cell list \<Rightarrow> frame \<Rightarrow> error + frame" where
  \<comment> \<open>\<open>drop(columns = labels)\<close>: every column with one of the labels goes; an unknown label raises\<close>
  "drop_columns labels df =
     (let cols = frame_columns df;
          missing = filter (\<lambda>l. l \<notin> set cols) labels
      in if missing \<noteq> [] then Inl (Key_error_labels missing)
         else Inr (select_columns (filter (\<lambda>j. cols ! j \<notin> set labels) [0..<length cols]) df))"

definition getitem_columns :: "cell list \<Rightarrow> frame \<Rightarrow> error + frame" where
  \<comment> \<open>\<open>df[labels]\<close>: for each label in turn the columns that carry it; an unknown label raises\<close>
  "getitem_columns labels df =
     (let cols = frame_columns df;
          missing = filter (\<lambda>l. l \<notin> set cols) labels
      in if missing \<noteq> [] then Inl (Key_error_labels missing)
         else Inr (select_columns
                     (concat (map (\<lambda>l. filter (\<lambda>j. cols ! j = l) [0..<length cols]) labels)) df))"

definition assemble :: "cell list list \<Rightarrow> cell list \<Rightarrow> error + frame" where
  \<comment> \<open>the lines after the reading loop, from \<open>colname_list = data_all[0]\<close> to the \<open>return\<close>\<close>
  "assemble data_all target_column_names =
     (case data_all of
        [] \<Rightarrow> Inl Index_error
      | colname_list # data_values \<Rightarrow>
          (case data_frame data_values colname_list of
             Inl e \<Rightarrow> Inl e
           | Inr mydf \<Rightarrow>
               let mydf_row_cleaned = dropna_rows mydf
               in (case drop_columns (to_drop (frame_columns mydf_row_cleaned)) mydf_row_cleaned of
                     Inl e \<Rightarrow> Inl e
                   | Inr mydf_cleaned \<Rightarrow>
                       if target_column_names \<noteq> []
                       then getitem_columns target_column_names mydf_cleaned
                       else Inr mydf_cleaned)))"

definition load_sheet_data_to_df ::
  "remote \<Rightarrow> string \<Rightarrow> int \<Rightarrow> int \<Rightarrow> string \<Rightarrow> string \<Rightarrow> int \<Rightarrow> cell list
   \<Rightarrow> event list \<times> (error + frame)" where
  "load_sheet_data_to_df R sheet_name row_id_start row_id_end col_id_start col_id_end batch_size
     target_column_names =
     (case load_data_all R sheet_name row_id_start row_id_end col_id_start col_id_end batch_size of
        (tr, Inl e) \<Rightarrow> (tr, Inl e)
      | (tr, Inr data_all) \<Rightarrow>
          (case assemble data_all target_column_names of
             Inl e \<Rightarrow> (tr, Inl (Failed ''load_sheet_data_to_df'' e))
           | Inr df \<Rightarrow> (tr, Inr df)))"

section \<open>Example remotes\<close>

text \<open>A remote that accepts every request, used to run the methods on concrete inputs.\<close>

definition quiet_remote :: remote where
  "quiet_remote = \<lparr>token_reply = Some ''t'', sheets_reply = Some [''Sheet1'' \<mapsto> ''sid''],
     put_reply = (\<lambda>n rng vals. Response 0 ''success''),
     get_reply = (\<lambda>n url. Some [])\<rparr>"

text \<open>
  A remote whose first two \<open>PUT\<close> calls fail with a transient code, one that always
  answers with the code for a payload that is too large, and one that always fails with
  a transient code.
\<close>

definition flaky_remote :: remote where
  "flaky_remote = quiet_remote\<lparr>put_reply :=
     (\<lambda>n rng vals. if n < 2 then Response 99991400 ''too many requests'' else Response 0 ''success'')\<rparr>"

definition too_large_remote :: remote where
  "too_large_remote = quiet_remote\<lparr>put_reply := (\<lambda>n rng vals. Response 90227 ''too large'')\<rparr>"

definition busy_remote :: remote where
  "busy_remote = quiet_remote\<lparr>put_reply :=
     (\<lambda>n rng vals. Response 99991400 (''busy '' @ str_nat n))\<rparr>"

section \<open>Reading a trace\<close>

text \<open>
  What a trace says: the answers that ask for a retry, the writes the remote accepted,
  the reads that returned rows, and the waiting times.
\<close>

fun retryable :: "response \<Rightarrow> bool" where
  "retryable (Response code msg) = (code \<noteq> 0 \<and> code \<noteq> 90227)"
| "retryable No_response = False"

fun accepted_put :: "event \<Rightarrow> (string \<times> cell list list) list" where
  "accepted_put (Put rng vals (Response code msg)) = (if code = 0 then [(rng, vals)] else [])"
| "accepted_put ev = []"

definition accepted_puts :: "event list \<Rightarrow> (string \<times> cell list list) list" where
  "accepted_puts tr = concat (map accepted_put tr)"

fun successful_get :: "event \<Rightarrow> (string \<times> cell list list) list" where
  "successful_get (Get url (Some rows)) = [(url, rows)]"
| "successful_get ev = []"

definition successful_gets :: "event list \<Rightarrow> (string \<times> cell list list) list" where
  "successful_gets tr = concat (map successful_get tr)"

fun sleep_time :: "event \<Rightarrow> nat list" where
  "sleep_time (Sleep t) = [t]"
| "sleep_time ev = []"

definition sleeps :: "event list \<Rightarrow> nat list" where
  "sleeps tr = concat (map sleep_time tr)"

text \<open>
  The part of a trace left by \<open>d\<close> failed attempts of one request, the first of them
  being attempt \<open>a\<close> and the \<open>n0\<close>-th \<open>PUT\<close> of the run: each attempt is followed by
  its waiting time.
\<close>

definition retries :: "remote \<Rightarrow> string \<Rightarrow> cell list list \<Rightarrow> nat \<Rightarrow> nat \<Rightarrow> nat \<Rightarrow> event list" where
  "retries R rng vals n0 a d =
     concat (map (\<lambda>j. [Put rng vals (put_reply R (n0 + j) rng vals), Sleep (10 * (a + j + 1))]) [0..<d])"

section \<open>The write plan, as the specification words it\<close>

text \<open>
  The grid is cut into chunks of \<open>n\<close> rows, the last one shorter when \<open>n\<close> does not
  divide the number of rows. Chunk \<open>k\<close> starts \<open>k * n\<close> rows below the start row, in
  the same start column, and ends in the same end column, as many rows further down as
  it has rows. Each chunk goes with the text of its range.
\<close>

definition planned_chunks ::
  "string \<Rightarrow> string \<Rightarrow> nat \<Rightarrow> string \<Rightarrow> cell list list \<Rightarrow> nat \<Rightarrow> (string \<times> cell list list) list" where
  "planned_chunks sheet_id start_letter start_number end_letter standard n =
     map (\<lambda>k. let chunk = take n (drop (k * n) standard);
                  origin_row = start_number + k * n
              in (sheet_id @ ''!'' @ start_letter @ str_nat origin_row @ '':'' @ end_letter
                    @ str_nat (origin_row + length chunk - 1),
                  chunk))
       [0..<(length standard + n - 1) div n]"

text \<open>
  Two remotes for reading: one that answers the first \<open>GET\<close> with a label row and every
  later one with ten rows, and one whose \<open>GET\<close> always fails.
\<close>

definition table_remote :: remote where
  "table_remote = quiet_remote\<lparr>get_reply :=
     (\<lambda>n url. if n = 0 then Some [[CStr ''id'', CStr ''name'']]
               else Some (replicate 10 [CStr ''7'', CNone]))\<rparr>"

definition dead_remote :: remote where
  "dead_remote = quiet_remote\<lparr>get_reply := (\<lambda>n url. None)\<rparr>"

section \<open>Properties of the column index\<close>

lemma fold_order_upd:
  "fold (\<lambda>(i, col) d. d(i \<mapsto> col)) (enumerate n xs) m j =
     (if n \<le> j \<and> j < n + length xs then Some (xs ! (j - n)) else m j)"
proof (induction xs arbitrary: n m)
  case Nil
  then show ?case by auto
next
  case (Cons x xs)
  show ?case
  proof (cases "j = n")
    case True
    with Cons.IH [of "Suc n" "m(n \<mapsto> x)"] show ?thesis
      by (simp add: fun_upd_same del: fun_upd_apply)
  next
    case False
    then show ?thesis
      by (auto simp add: Cons.IH nth_Cons' fun_upd_other simp del: fun_upd_apply)
  qed
qed

lemma fold_col_upd_notin:
  "c \<notin> set xs \<Longrightarrow> fold (\<lambda>(i, col) d. d(col \<mapsto> i)) (enumerate n xs) m c = m c"
  by (induction xs arbitrary: n m) (auto simp add: fun_upd_other simp del: fun_upd_apply)

lemma fold_col_upd_nth:
  "distinct xs \<Longrightarrow> k < length xs \<Longrightarrow>
   fold (\<lambda>(i, col) d. d(col \<mapsto> i)) (enumerate n xs) m (xs ! k) = Some (n + k)"
proof (induction xs arbitrary: n m k)
  case Nil
  then show ?case by simp
next
  case (Cons x xs)
  show ?case
  proof (cases k)
    case 0
    with Cons.prems fold_col_upd_notin [of x xs "Suc n" "m(x \<mapsto> n)"] show ?thesis
      by (simp add: fun_upd_same del: fun_upd_apply)
  next
    case (Suc k')
    with Cons.prems Cons.IH [of k' "Suc n"] show ?thesis by (simp del: fun_upd_apply)
  qed
qed

lemma length_A_ZZ_list: "length A_ZZ_list = 702"
  by (simp add: A_ZZ_list_def A_Z_list_def AA_ZZ_list_def length_concat comp_def sum_list_triv)

lemma concat_map_nth:
  assumes "i < n" "j < m"
  shows "concat (map (\<lambda>i. map (f i) [0..<m]) [0..<n]) ! (i * m + j) = f i j"
using assms proof (induction n arbitrary: i)
  case 0
  then show ?case by simp
next
  case (Suc n)
  have len: "length (concat (map (\<lambda>i. map (f i) [0..<m]) [0..<n])) = n * m"
    by (simp add: length_concat comp_def sum_list_triv)
  show ?case
  proof (cases "i < n")
    case True
    then have "i * m + j < n * m"
      using Suc.prems(2) by (metis add.commute add_less_cancel_left less_le_trans mult.commute mult_Suc_right mult_le_mono1 Suc_leI)
    with True Suc show ?thesis by (simp add: nth_append len)
  next
    case False
    with Suc.prems have "i = n" by simp
    with Suc.prems show ?thesis by (simp add: nth_append len)
  qed
qed

lemma nth_A_ZZ_list:
  assumes "k < 702"
  shows "A_ZZ_list ! k = (if k < 26 then [char_of (65 + k)]
     else [char_of (65 + (k - 26) div 26), char_of (65 + (k - 26) mod 26)])"
proof (cases "k < 26")
  case True
  then show ?thesis by (simp add: A_ZZ_list_def A_Z_list_def nth_append)
next
  case False
  define r where "r = k - 26"
  have r: "r div 26 < 26" "r mod 26 < 26" "r = r div 26 * 26 + r mod 26"
    using assms False by (auto simp: r_def)
  have "AA_ZZ_list ! r = [char_of (65 + r div 26), char_of (65 + r mod 26)]"
    unfolding AA_ZZ_list_def
    using concat_map_nth [OF r(1) r(2), of "\<lambda>i j. [char_of (65 + i), char_of (65 + j)]"] r(3)
    by simp
  with False show ?thesis by (simp add: A_ZZ_list_def A_Z_list_def nth_append r_def)
qed

lemma char_of_inj: "a < 256 \<Longrightarrow> b < 256 \<Longrightarrow> (char_of (a::nat) :: char) = char_of b \<Longrightarrow> a = b"
  by (metis of_char_of mod_less)

lemma distinct_A_ZZ_list: "distinct A_ZZ_list"
proof -
  have "\<And>i j. i < 702 \<Longrightarrow> j < 702 \<Longrightarrow> A_ZZ_list ! i = A_ZZ_list ! j \<Longrightarrow> i = j"
  proof -
    fix i j :: nat
    assume ij: "i < 702" "j < 702" and eq: "A_ZZ_list ! i = A_ZZ_list ! j"
    show "i = j"
    proof (cases "i < 26")
      case True
      show ?thesis
      proof (cases "j < 26")
        case j: True
        with True eq ij have "(char_of (65 + i) :: char) = char_of (65 + j)"
          by (simp add: nth_A_ZZ_list)
        with True j char_of_inj [of "65 + i" "65 + j"] show ?thesis by simp
      next
        case False
        with True eq ij show ?thesis by (simp add: nth_A_ZZ_list)
      qed
    next
      case False
      show ?thesis
      proof (cases "j < 26")
        case True
        with False eq ij show ?thesis by (simp add: nth_A_ZZ_list)
      next
        case j: False
        define a where "a = i - 26"
        define b where "b = j - 26"
        have ab: "a div 26 < 26" "a mod 26 < 26" "b div 26 < 26" "b mod 26 < 26"
          using ij False j by (auto simp: a_def b_def)
        from False j eq ij have
          "(char_of (65 + a div 26) :: char) = char_of (65 + b div 26)"
          "(char_of (65 + a mod 26) :: char) = char_of (65 + b mod 26)"
          by (simp_all add: nth_A_ZZ_list a_def b_def)
        with ab char_of_inj [of "65 + a div 26" "65 + b div 26"]
          char_of_inj [of "65 + a mod 26" "65 + b mod 26"]
        have "a div 26 = b div 26" "a mod 26 = b mod 26" by simp_all
        then have "a = b" by (metis div_mult_mod_eq)
        with False j show ?thesis by (simp add: a_def b_def)
      qed
    qed
  qed
  then show ?thesis
    unfolding distinct_conv_nth length_A_ZZ_list by blast
qed

lemma order_to_col_eq:
  "order_to_col k = (if k < 702 then Some (A_ZZ_list ! k) else None)"
  by (simp add: order_to_col_def fold_order_upd length_A_ZZ_list)

lemma col_to_order_nth: "k < 702 \<Longrightarrow> col_to_order (A_ZZ_list ! k) = Some k"
  using fold_col_upd_nth [OF distinct_A_ZZ_list, of k 0 Map.empty]
  by (simp add: col_to_order_def length_A_ZZ_list)

lemma col_to_order_notin: "c \<notin> set A_ZZ_list \<Longrightarrow> col_to_order c = None"
  by (simp add: col_to_order_def fold_col_upd_notin)

lemma col_to_order_Some:
  "col_to_order c = Some k \<longleftrightarrow> k < 702 \<and> A_ZZ_list ! k = c"
proof
  assume h: "col_to_order c = Some k"
  then have "c \<in> set A_ZZ_list" using col_to_order_notin by fastforce
  then obtain j where j: "j < 702" "A_ZZ_list ! j = c"
    by (auto simp: in_set_conv_nth length_A_ZZ_list)
  with col_to_order_nth [of j] h show "k < 702 \<and> A_ZZ_list ! k = c" by simp
next
  assume "k < 702 \<and> A_ZZ_list ! k = c"
  then show "col_to_order c = Some k" using col_to_order_nth by auto
qed

section \<open>Strings and the check of the rows\<close>

lemma is_digit_digit_char: "d < 10 \<Longrightarrow> is_digit (digit_char d)"
  by (simp add: is_digit_def digit_char_def)

lemma of_char_digit_char: "d < 10 \<Longrightarrow> (of_char (digit_char d) :: nat) = 48 + d"
  by (simp add: digit_char_def)

lemma str_nat_nonempty: "str_nat n \<noteq> []"
  by (subst str_nat.simps) simp

lemma str_nat_digits: "\<forall>c \<in> set (str_nat n). is_digit c"
proof (induction n rule: str_nat.induct)
  case (1 n)
  show ?case
  proof (cases "n < 10")
    case True
    then show ?thesis by (subst str_nat.simps) (simp add: is_digit_digit_char)
  next
    case False
    with "1.IH" show ?thesis by (subst str_nat.simps) (simp add: is_digit_digit_char)
  qed
qed

lemma fold_digits_append:
  "fold (\<lambda>c n. 10 * n + ((of_char c :: nat) - 48)) (xs @ [c]) a =
   10 * fold (\<lambda>c n. 10 * n + ((of_char c :: nat) - 48)) xs a + ((of_char c :: nat) - 48)"
  by simp

lemma int_of_digits_str_nat: "int_of_digits (str_nat n) = n"
proof (induction n rule: str_nat.induct)
  case (1 n)
  show ?case
  proof (cases "n < 10")
    case True
    then show ?thesis
      by (subst str_nat.simps) (simp add: int_of_digits_def of_char_digit_char)
  next
    case False
    with "1.IH" have "int_of_digits (str_nat (n div 10)) = n div 10" by simp
    with False show ?thesis
      by (subst str_nat.simps) (simp add: int_of_digits_def of_char_digit_char)
  qed
qed

lemma letter_not_digit: "is_letter c \<Longrightarrow> \<not> is_digit c"
  by (auto simp: is_letter_def is_upper_def is_lower_def is_digit_def Let_def)

lemma match_here_cell:
  assumes "L \<noteq> []" "\<forall>c \<in> set L. is_letter c" "D \<noteq> []" "\<forall>c \<in> set D. is_digit c"
  shows "match_here (L @ D) = Some (L, D)"
proof -
  from assms(3) obtain d ds where D: "D = d # ds" by (cases D) auto
  with assms(4) have d: "\<not> is_letter d" using letter_not_digit by auto
  have tw: "takeWhile is_letter (L @ D) = L"
    using assms(2) d D by (simp add: takeWhile_append2)
  have dw: "dropWhile is_letter (L @ D) = D"
    using assms(2) d D by (simp add: dropWhile_append2)
  have td: "takeWhile is_digit D = D" using assms(4) by (simp add: takeWhile_eq_all_conv)
  show ?thesis unfolding match_here_def Let_def tw dw td using assms(1,3) by simp
qed

lemma re_search_cell:
  assumes "L \<noteq> []" "\<forall>c \<in> set L. is_letter c" "D \<noteq> []" "\<forall>c \<in> set D. is_digit c"
  shows "re_search (L @ D) = Some (L, D)"
proof -
  from assms(1) obtain c cs where "L @ D = c # cs" by (cases L) auto
  with match_here_cell [OF assms] show ?thesis by (metis option.simps(5) re_search.simps(2))
qed

lemma is_upper_char_of: "(i::nat) < 26 \<Longrightarrow> is_upper (char_of (65 + i))"
  by (simp add: is_upper_def)

lemma A_ZZ_list_upper:
  assumes "k < 702"
  shows "A_ZZ_list ! k \<noteq> [] \<and> (\<forall>c \<in> set (A_ZZ_list ! k). is_upper c)"
proof -
  have "(k - 26) div 26 < 26" "(k - 26) mod 26 < 26" using assms by auto
  then show ?thesis using assms by (simp add: nth_A_ZZ_list is_upper_char_of)
qed

lemma upper_of_upper: "\<forall>c \<in> set s. is_upper c \<Longrightarrow> upper s = s"
  by (induction s) (auto simp: upper_def upper_char_def is_upper_def is_lower_def Let_def)

lemma collect_elem_len_eq:
  "collect_elem_len rows acc =
     (if [] \<in> set rows then Inl Empty_row else Inr (acc @ map length rows))"
  by (induction rows arbitrary: acc) auto

lemma remdups_one:
  "length (remdups xs) = 1 \<longleftrightarrow> xs \<noteq> [] \<and> (\<forall>x \<in> set xs. x = hd xs)"
proof
  assume h: "length (remdups xs) = 1"
  then have "card (set xs) = 1" by (simp add: length_remdups_card_conv)
  then obtain a where a: "set xs = {a}" by (auto simp: card_1_singleton_iff)
  then have "xs \<noteq> []" by auto
  moreover from this a have "hd xs = a" using hd_in_set by fastforce
  ultimately show "xs \<noteq> [] \<and> (\<forall>x \<in> set xs. x = hd xs)" using a by auto
next
  assume h: "xs \<noteq> [] \<and> (\<forall>x \<in> set xs. x = hd xs)"
  then have "set xs = {hd xs}" using hd_in_set by auto
  then show "length (remdups xs) = 1" by (simp add: length_remdups_card_conv)
qed

lemma row_lengths_one:
  "length (remdups (map length rows)) = 1 \<longleftrightarrow>
     rows \<noteq> [] \<and> (\<forall>r \<in> set rows. length r = length (hd rows))"
proof (cases rows)
  case Nil
  then show ?thesis by simp
next
  case (Cons a list)
  have "hd (map length rows) = length (hd rows)" using Cons by simp
  with remdups_one [of "map length rows"] Cons show ?thesis by auto
qed

lemma check_2d_list_None:
  "check_2d_list rows = None \<longleftrightarrow>
     rows \<noteq> [] \<and> [] \<notin> set rows \<and> (\<forall>r \<in> set rows. length r = length (hd rows))"
proof (cases "[] \<in> set rows")
  case True
  then show ?thesis by (simp add: check_2d_list_def collect_elem_len_eq)
next
  case False
  then have "check_2d_list rows = None \<longleftrightarrow> length (remdups (map length rows)) = 1"
    by (simp add: check_2d_list_def collect_elem_len_eq del: remdups.simps)
  with False show ?thesis by (simp only: row_lengths_one) simp
qed

lemma check_2d_list_Some:
  "check_2d_list rows = Some e \<longleftrightarrow>
     (if [] \<in> set rows then e = Empty_row
      else e = Unequal_length \<and> (rows = [] \<or> (\<exists>r \<in> set rows. length r \<noteq> length (hd rows))))"
proof (cases "[] \<in> set rows")
  case True
  then show ?thesis by (auto simp add: check_2d_list_def collect_elem_len_eq)
next
  case False
  then have "check_2d_list rows = Some e \<longleftrightarrow>
      e = Unequal_length \<and> \<not> length (remdups (map length rows)) = 1"
    by (auto simp add: check_2d_list_def collect_elem_len_eq simp del: remdups.simps)
  with False show ?thesis by (simp only: row_lengths_one) auto
qed

section \<open>Column round trip and range computation\<close>

lemma eq_char_of_iff: "c = char_of n \<longleftrightarrow> of_char c = take_bit 8 n"
  using char_of_eq_iff [of n c] by auto

lemmas char_eval = char_of_eq_iff eq_char_of_iff

lemma col_to_order_letter:
  "k < 702 \<Longrightarrow> c = A_ZZ_list ! k \<Longrightarrow> col_to_order c = Some k"
  by (simp add: col_to_order_nth)

lemma str_nat_small: "n < 10 \<Longrightarrow> str_nat n = [digit_char n]"
  by (subst str_nat.simps) simp

lemma str_nat_step: "10 \<le> n \<Longrightarrow> str_nat n = str_nat (n div 10) @ [digit_char (n mod 10)]"
  by (subst str_nat.simps) simp

lemma complete_data_range_checked:
  assumes "re_search start_loc = Some (g1, g2)"
    and "check_2d_list input_data = None"
    and "col_to_order (upper g1) = Some start_order"
  shows "complete_data_range start_loc input_data =
     (let end_letter_order = start_order + length (hd input_data) - 1
      in if end_letter_order < 702
         then Inr (upper g1 @ str_nat (int_of_digits g2) @ '':'' @ A_ZZ_list ! end_letter_order
                   @ str_nat (int_of_digits g2 + length input_data - 1))
         else Inl (Failed ''complete_data_range'' (Key_error_order end_letter_order)))"
proof -
  from assms(2) have "input_data \<noteq> []" by (simp add: check_2d_list_None)
  then have "input_data ! 0 = hd input_data" by (simp add: hd_conv_nth)
  with assms show ?thesis
    by (simp add: complete_data_range_def Let_def order_to_col_eq)
qed

text \<open>
  C3. The list \<open>A_ZZ_list\<close> has 702 entries; \<open>order_to_col\<close> followed by
  \<open>col_to_order\<close> is the identity on the ordinals 0 to 701, \<open>col_to_order\<close> followed by
  \<open>order_to_col\<close> is the identity on the letters of the list, and the two dictionaries
  have exactly these ordinals and these letters as keys.
\<close>

theorem col_order_roundtrip:
  "length A_ZZ_list = 702 \<and>
   (\<forall>ord < 702. Option.bind (order_to_col ord) col_to_order = Some ord) \<and>
   (\<forall>L \<in> set A_ZZ_list. Option.bind (col_to_order L) order_to_col = Some L) \<and>
   dom order_to_col = {0..<702} \<and> dom col_to_order = set A_ZZ_list"
proof -
  have a: "\<forall>ord < 702. Option.bind (order_to_col ord) col_to_order = Some ord"
    by (simp add: order_to_col_eq col_to_order_nth)
  have b: "\<forall>L \<in> set A_ZZ_list. Option.bind (col_to_order L) order_to_col = Some L"
  proof
    fix L assume "L \<in> set A_ZZ_list"
    then obtain k where "k < 702" "A_ZZ_list ! k = L"
      by (auto simp: in_set_conv_nth length_A_ZZ_list)
    then show "Option.bind (col_to_order L) order_to_col = Some L"
      using col_to_order_nth [of k] by (simp add: order_to_col_eq)
  qed
  have c: "dom order_to_col = {0..<702}"
    by (auto simp: dom_def order_to_col_eq)
  have d: "dom col_to_order = set A_ZZ_list"
  proof
    show "dom col_to_order \<subseteq> set A_ZZ_list"
      using nth_mem [of _ A_ZZ_list] by (auto simp: dom_def col_to_order_Some length_A_ZZ_list)
    show "set A_ZZ_list \<subseteq> dom col_to_order"
      using b by (auto simp: dom_def bind_eq_Some_conv)
  qed
  from a b c d length_A_ZZ_list show ?thesis by blast
qed

theorem col_order_roundtrip_witness:
  "order_to_col 27 = Some ''AB'' \<and> col_to_order ''AB'' = Some 27 \<and> ''AB'' \<in> set A_ZZ_list"
proof -
  have n: "A_ZZ_list ! 27 = ''AB''" by (simp add: nth_A_ZZ_list char_eval)
  then have o: "order_to_col 27 = Some ''AB''" by (simp add: order_to_col_eq)
  from col_order_roundtrip have "Option.bind (order_to_col 27) col_to_order = Some 27"
    by simp
  with o have c: "col_to_order ''AB'' = Some 27" by simp
  from col_order_roundtrip c have "''AB'' \<in> set A_ZZ_list" by blast
  with o c show ?thesis by simp
qed

text \<open>
  C4. For a non-empty grid whose rows all have \<open>col_num > 0\<close> cells and a start location
  that parses to a column with ordinal \<open>start_order\<close>: when
  \<open>start_order + col_num - 1\<close> is below 702, \<open>complete_data_range\<close> returns the start
  cell, a colon and the end cell, whose column has ordinal \<open>start_order + col_num - 1\<close>
  and whose row is the start row plus the number of rows minus one; otherwise it fails
  with the key error of \<open>order_to_col\<close>. From \<open>A1\<close> a grid of 3 rows and 2 columns
  gives \<open>A1:B3\<close>.
\<close>

theorem complete_data_range_end_cell:
  assumes "input_data \<noteq> []"
    and "\<forall>row \<in> set input_data. length row = col_num"
    and "0 < col_num"
    and "re_search start_loc = Some (g1, g2)"
    and "col_to_order (upper g1) = Some start_order"
  shows "(start_order + col_num - 1 < 702 \<longrightarrow>
           (\<exists>end_letter.
              complete_data_range start_loc input_data =
                Inr (upper g1 @ str_nat (int_of_digits g2) @ '':'' @ end_letter
                     @ str_nat (int_of_digits g2 + length input_data - 1)) \<and>
              col_to_order end_letter = Some (start_order + col_num - 1))) \<and>
         (702 \<le> start_order + col_num - 1 \<longrightarrow>
           complete_data_range start_loc input_data =
             Inl (Failed ''complete_data_range'' (Key_error_order (start_order + col_num - 1))))"
proof -
  from assms(1,2) have hd: "length (hd input_data) = col_num" by simp
  from assms(1,2,3) have "check_2d_list input_data = None"
    by (auto simp: check_2d_list_None)
  from complete_data_range_checked [OF assms(4) this assms(5)] hd
  show ?thesis by (auto simp: Let_def col_to_order_nth)
qed

theorem complete_data_range_end_cell_witness:
  "complete_data_range ''A1'' [[CNum 1, CNum 2], [CNum 3, CNum 4], [CNum 5, CNum 6]] = Inr ''A1:B3''
   \<and> col_to_order ''A'' = Some 0 \<and> col_to_order ''B'' = Some 1
   \<and> complete_data_range ''ZZ7'' [[CNum 1, CNum 2]]
       = Inl (Failed ''complete_data_range'' (Key_error_order 702))"
proof -
  have s: "re_search ''A1'' = Some (''A'', ''1'')"
    by (simp add: match_here_def is_letter_def is_upper_def is_lower_def is_digit_def)
  have u: "upper ''A'' = ''A''"
    by (simp add: upper_def upper_char_def is_lower_def)
  have a: "col_to_order ''A'' = Some 0"
    by (rule col_to_order_letter) (simp_all add: nth_A_ZZ_list char_eval)
  have b: "col_to_order ''B'' = Some 1"
    by (rule col_to_order_letter) (simp_all add: nth_A_ZZ_list char_eval)
  have i: "int_of_digits ''1'' = 1" "str_nat 1 = ''1''" "str_nat 3 = ''3''"
    by (simp_all add: int_of_digits_def str_nat_small digit_char_def char_eval)
  let ?g = "[[CNum 1, CNum 2], [CNum 3, CNum 4], [CNum 5, CNum 6]]"
  have "\<exists>end_letter. complete_data_range ''A1'' ?g =
          Inr (upper ''A'' @ str_nat (int_of_digits ''1'') @ '':'' @ end_letter
               @ str_nat (int_of_digits ''1'' + length ?g - 1)) \<and>
          col_to_order end_letter = Some (0 + 2 - 1)"
    using complete_data_range_end_cell [of ?g 2 "''A1''" "''A''" "''1''" 0] s
    by (simp add: u a)
  then obtain end_letter where
    e: "complete_data_range ''A1'' ?g = Inr (''A1:'' @ end_letter @ ''3'')"
       "col_to_order end_letter = Some 1"
    by (auto simp: u int_of_digits_def str_nat_small digit_char_def char_eval)
  from e(2) have "end_letter = ''B''" by (auto simp add: col_to_order_Some nth_A_ZZ_list char_eval)
  with e(1) have r: "complete_data_range ''A1'' ?g = Inr ''A1:B3''" by simp
  have s2: "re_search ''ZZ7'' = Some (''ZZ'', ''7'')"
    by (simp add: match_here_def is_letter_def is_upper_def is_lower_def is_digit_def)
  have u2: "upper ''ZZ'' = ''ZZ''"
    by (simp add: upper_def upper_char_def is_lower_def)
  have z: "col_to_order ''ZZ'' = Some 701"
    by (rule col_to_order_letter) (simp_all add: nth_A_ZZ_list char_eval)
  have "complete_data_range ''ZZ7'' [[CNum 1, CNum 2]]
       = Inl (Failed ''complete_data_range'' (Key_error_order 702))"
    using complete_data_range_end_cell [of "[[CNum 1, CNum 2]]" 2 "''ZZ7''" "''ZZ''" "''7''" 701] s2
    by (simp add: u2 z)
  with r a b show ?thesis by simp
qed

section \<open>Validation of the grid\<close>

lemma check_2d_list_Nil: "check_2d_list [] = Some Unequal_length"
  by (simp add: check_2d_list_def)

text \<open>
  C10. For the empty grid, \<open>complete_data_range\<close> never returns a range, and for a start
  location that parses it fails with the error of the equal-length check;
  \<open>write_multi_data\<close> and \<open>batch_write_multi_data\<close> fail with that error for every
  start location and every remote, and their trace of calls is empty.
\<close>

theorem empty_grid_rejected:
  "(re_search start_loc \<noteq> None \<longrightarrow>
      complete_data_range start_loc ([] :: cell list list)
        = Inl (Failed ''complete_data_range'' Unequal_length)) \<and>
   (\<forall>r. complete_data_range start_loc ([] :: cell list list) \<noteq> Inr r) \<and>
   write_multi_data R sheet_name start_loc (Rows [])
     = ([], Inl (Failed ''write_multi_data'' Unequal_length)) \<and>
   batch_write_multi_data R sheet_name start_loc (Rows []) batch_size
     = ([], Inl (Failed ''batch_write_multi_data'' Unequal_length))"
  by (auto simp: complete_data_range_def write_multi_data_def batch_write_multi_data_def
      format_input_def check_2d_list_Nil split: option.splits)

theorem empty_grid_rejected_witness:
  "re_search ''A1'' \<noteq> None \<and>
   complete_data_range ''A1'' ([] :: cell list list)
     = Inl (Failed ''complete_data_range'' Unequal_length) \<and>
   fst (write_multi_data quiet_remote ''Sheet1'' ''A1'' (Rows [])) = [] \<and>
   fst (batch_write_multi_data quiet_remote ''Sheet1'' ''A1'' (Rows []) 100) = []"
proof -
  have s: "re_search ''A1'' \<noteq> None"
    by (simp add: match_here_def is_letter_def is_upper_def is_lower_def is_digit_def)
  with empty_grid_rejected [of "''A1''" quiet_remote "''Sheet1''" 100] show ?thesis by simp
qed

lemma to_2d_list_Dict:
  "to_2d_list (Dict items) =
     (if items \<noteq> [] \<and> (\<forall>v \<in> set (map snd items). length v = length (hd (map snd items)))
      then Inr (map fst items
                # map (\<lambda>i. map (\<lambda>val. val ! i) (map snd items)) [0..<length (snd (hd items))])
      else Inl (Failed ''to_2d_list'' Dict_unequal_length))"
proof (cases items)
  case Nil
  then show ?thesis by (simp add: to_2d_list_def)
next
  case (Cons kv rest)
  have "length (remdups (map length (map snd items))) = 1 \<longleftrightarrow>
        (\<forall>v \<in> set (map snd items). length v = length (hd (map snd items)))"
    using row_lengths_one [of "map snd items"] Cons by simp
  then show ?thesis using Cons
    by (simp add: to_2d_list_def Let_def del: remdups.simps)
qed

lemma to_2d_list_Dict_checked:
  assumes "to_2d_list (Dict items) = Inr grid"
  shows "check_2d_list grid = None \<and> hd grid = map fst items \<and>
         (\<forall>r \<in> set grid. length r = length items)"
proof -
  from assms have ne: "items \<noteq> []" and
    g: "grid = map fst items
          # map (\<lambda>i. map (\<lambda>val. val ! i) (map snd items)) [0..<length (snd (hd items))]"
    by (auto simp: to_2d_list_Dict split: if_splits)
  from g have len: "\<forall>r \<in> set grid. length r = length items" by auto
  with ne g show ?thesis by (auto simp: check_2d_list_None)
qed

lemma to_2d_list_Dict_unequal:
  assumes "\<exists>v \<in> snd ` set items. \<exists>w \<in> snd ` set items. length v \<noteq> length w"
  shows "to_2d_list (Dict items) = Inl (Failed ''to_2d_list'' Dict_unequal_length)"
proof -
  from assms obtain v w where "v \<in> set (map snd items)" "w \<in> set (map snd items)"
    "length v \<noteq> length w" by auto
  then have "\<not> (\<forall>v \<in> set (map snd items). length v = length (hd (map snd items)))"
    by metis
  then show ?thesis by (simp add: to_2d_list_Dict)
qed

lemma check_2d_list_bad:
  assumes "[] \<in> set rows \<or> (\<exists>r \<in> set rows. \<exists>r' \<in> set rows. length r \<noteq> length r')"
  shows "check_2d_list rows = Some (if [] \<in> set rows then Empty_row else Unequal_length)"
proof (cases "[] \<in> set rows")
  case True
  then show ?thesis by (simp add: check_2d_list_Some)
next
  case False
  with assms obtain r r' where "r \<in> set rows" "r' \<in> set rows" "length r \<noteq> length r'"
    by auto
  then have "\<exists>r \<in> set rows. length r \<noteq> length (hd rows)" by metis
  with False show ?thesis by (simp add: check_2d_list_Some)
qed

lemma check_2d_list_rectangular:
  assumes "check_2d_list grid = None"
  shows "grid \<noteq> [] \<and> (\<exists>n > 0. \<forall>r \<in> set grid. length r = n)"
proof -
  from assms have g: "grid \<noteq> []" "[] \<notin> set grid"
    "\<forall>r \<in> set grid. length r = length (hd grid)"
    using check_2d_list_None [of grid] by blast+
  from g(1,2) have "hd grid \<noteq> []" using hd_in_set by metis
  then have "0 < length (hd grid)" by simp
  with g(1,3) show ?thesis by blast
qed

lemma write_rejects_rows:
  assumes "check_2d_list rows = Some e"
  shows "write_multi_data R sheet_name start_loc (Rows rows)
           = ([], Inl (Failed ''write_multi_data'' e))"
    and "batch_write_multi_data R sheet_name start_loc (Rows rows) batch_size
           = ([], Inl (Failed ''batch_write_multi_data'' e))"
  using assms
  by (simp_all add: write_multi_data_def batch_write_multi_data_def format_input_def)

lemma write_rejects_dict:
  assumes "to_2d_list (Dict items) = Inl e"
  shows "write_multi_data R sheet_name start_loc (Dict items)
           = ([], Inl (Failed ''write_multi_data'' e))"
    and "batch_write_multi_data R sheet_name start_loc (Dict items) batch_size
           = ([], Inl (Failed ''batch_write_multi_data'' e))"
  using assms
  by (simp_all add: write_multi_data_def batch_write_multi_data_def format_input_def)

text \<open>
  C7. A dict with two values of different lengths is rejected by \<open>to_2d_list\<close>, and both
  write methods fail with that error and an empty trace of calls. A list of lists with an
  empty row, or with two rows of different lengths, is rejected by both write methods with
  an empty trace (the empty-row error when there is an empty row, the equal-length error
  otherwise). A grid that passes the check is non-empty and all its rows have one common
  positive length; the grid of a dict that \<open>to_2d_list\<close> accepts passes the check.
\<close>

theorem grid_validation:
  "((\<exists>v \<in> snd ` set items. \<exists>w \<in> snd ` set items. length v \<noteq> length w) \<longrightarrow>
      to_2d_list (Dict items) = Inl (Failed ''to_2d_list'' Dict_unequal_length) \<and>
      write_multi_data R sheet_name start_loc (Dict items)
        = ([], Inl (Failed ''write_multi_data'' (Failed ''to_2d_list'' Dict_unequal_length))) \<and>
      batch_write_multi_data R sheet_name start_loc (Dict items) batch_size
        = ([], Inl (Failed ''batch_write_multi_data'' (Failed ''to_2d_list'' Dict_unequal_length)))) \<and>
   (([] \<in> set rows \<or> (\<exists>r \<in> set rows. \<exists>r' \<in> set rows. length r \<noteq> length r')) \<longrightarrow>
      (let e = (if [] \<in> set rows then Empty_row else Unequal_length) in
       write_multi_data R sheet_name start_loc (Rows rows)
         = ([], Inl (Failed ''write_multi_data'' e)) \<and>
       batch_write_multi_data R sheet_name start_loc (Rows rows) batch_size
         = ([], Inl (Failed ''batch_write_multi_data'' e)))) \<and>
   (format_input input_data = Inr grid \<and> check_2d_list grid = None \<longrightarrow>
      grid \<noteq> [] \<and> (\<exists>n > 0. \<forall>r \<in> set grid. length r = n)) \<and>
   (to_2d_list (Dict items) = Inr grid \<longrightarrow> check_2d_list grid = None)"
proof (intro conjI impI)
  assume h: "\<exists>v \<in> snd ` set items. \<exists>w \<in> snd ` set items. length v \<noteq> length w"
  from to_2d_list_Dict_unequal [OF h]
  show t: "to_2d_list (Dict items) = Inl (Failed ''to_2d_list'' Dict_unequal_length)" .
  from write_rejects_dict(1) [OF t]
  show "write_multi_data R sheet_name start_loc (Dict items)
        = ([], Inl (Failed ''write_multi_data'' (Failed ''to_2d_list'' Dict_unequal_length)))" .
  from write_rejects_dict(2) [OF t]
  show "batch_write_multi_data R sheet_name start_loc (Dict items) batch_size
        = ([], Inl (Failed ''batch_write_multi_data'' (Failed ''to_2d_list'' Dict_unequal_length)))" .
next
  assume "[] \<in> set rows \<or> (\<exists>r \<in> set rows. \<exists>r' \<in> set rows. length r \<noteq> length r')"
  from check_2d_list_bad [OF this] write_rejects_rows
  show "let e = (if [] \<in> set rows then Empty_row else Unequal_length) in
       write_multi_data R sheet_name start_loc (Rows rows)
         = ([], Inl (Failed ''write_multi_data'' e)) \<and>
       batch_write_multi_data R sheet_name start_loc (Rows rows) batch_size
         = ([], Inl (Failed ''batch_write_multi_data'' e))"
    unfolding Let_def by blast
next
  assume "format_input input_data = Inr grid \<and> check_2d_list grid = None"
  then have c: "check_2d_list grid = None" ..
  from check_2d_list_rectangular [OF c] show "grid \<noteq> []" ..
  from check_2d_list_rectangular [OF c] show "\<exists>n > 0. \<forall>r \<in> set grid. length r = n" ..
next
  assume "to_2d_list (Dict items) = Inr grid"
  from to_2d_list_Dict_checked [OF this] show "check_2d_list grid = None" ..
qed

theorem grid_validation_witness:
  "write_multi_data quiet_remote ''Sheet1'' ''A1'' (Dict [(CStr ''a'', [CNum 1, CNum 2]), (CStr ''b'', [CNum 3])])
     = ([], Inl (Failed ''write_multi_data'' (Failed ''to_2d_list'' Dict_unequal_length))) \<and>
   batch_write_multi_data quiet_remote ''Sheet1'' ''A1'' (Rows [[CNum 1], []]) 100
     = ([], Inl (Failed ''batch_write_multi_data'' Empty_row)) \<and>
   write_multi_data quiet_remote ''Sheet1'' ''A1'' (Rows [[CNum 1], [CNum 2, CNum 3]])
     = ([], Inl (Failed ''write_multi_data'' Unequal_length)) \<and>
   to_2d_list (Dict [(CStr ''a'', [CNum 1, CNum 2]), (CStr ''b'', [CNum 3, CNone])])
     = Inr [[CStr ''a'', CStr ''b''], [CNum 1, CNum 3], [CNum 2, CNone]] \<and>
   check_2d_list [[CStr ''a'', CStr ''b''], [CNum 1, CNum 3], [CNum 2, CNone]] = None"
proof -
  let ?bad = "[(CStr ''a'', [CNum 1, CNum 2]), (CStr ''b'', [CNum 3])]"
  let ?good = "[(CStr ''a'', [CNum 1, CNum 2]), (CStr ''b'', [CNum 3, CNone])]"
  let ?g = "[[CStr ''a'', CStr ''b''], [CNum 1, CNum 3], [CNum 2, CNone]]"
  let ?ragged = "[[CNum 1], [CNum 2, CNum 3]]"
  have t: "to_2d_list (Dict ?good) = Inr ?g"
    by code_simp
  have "[CNum 1, CNum 2] \<in> snd ` set ?bad" "[CNum 3] \<in> snd ` set ?bad"
    "length [CNum 1, CNum 2] \<noteq> length [CNum 3]" by simp_all
  then have h1: "\<exists>v \<in> snd ` set ?bad. \<exists>w \<in> snd ` set ?bad. length v \<noteq> length w"
    by blast
  have h2: "[] \<in> set [[CNum 1], []] \<or>
      (\<exists>r \<in> set [[CNum 1], []]. \<exists>r' \<in> set [[CNum 1], []]. length r \<noteq> length r')"
    by simp
  have "[CNum 1] \<in> set ?ragged" "[CNum 2, CNum 3] \<in> set ?ragged"
    "length [CNum 1] \<noteq> length [CNum 2, CNum 3]" by simp_all
  then have "\<exists>r \<in> set ?ragged. \<exists>r' \<in> set ?ragged. length r \<noteq> length r'" by blast
  then have h3: "[] \<in> set ?ragged \<or> (\<exists>r \<in> set ?ragged. \<exists>r' \<in> set ?ragged. length r \<noteq> length r')"
    by (rule disjI2)
  have 1: "write_multi_data quiet_remote ''Sheet1'' ''A1'' (Dict ?bad)
     = ([], Inl (Failed ''write_multi_data'' (Failed ''to_2d_list'' Dict_unequal_length)))"
    using grid_validation [of ?bad quiet_remote "''Sheet1''" "''A1''" 100 "[]" "Rows []" "[]",
        THEN conjunct1, THEN mp, OF h1]
    by (rule conjunct2 [THEN conjunct1])
  have 2: "batch_write_multi_data quiet_remote ''Sheet1'' ''A1'' (Rows [[CNum 1], []]) 100
     = ([], Inl (Failed ''batch_write_multi_data'' Empty_row))"
    using grid_validation [of "[]" quiet_remote "''Sheet1''" "''A1''" 100 "[[CNum 1], []]" "Rows []" "[]",
        THEN conjunct2, THEN conjunct1, THEN mp, OF h2]
    by (simp add: Let_def)
  have 3: "write_multi_data quiet_remote ''Sheet1'' ''A1'' (Rows ?ragged)
     = ([], Inl (Failed ''write_multi_data'' Unequal_length))"
    using grid_validation [of "[]" quiet_remote "''Sheet1''" "''A1''" 100 ?ragged "Rows []" "[]",
        THEN conjunct2, THEN conjunct1, THEN mp, OF h3]
    by (simp add: Let_def)
  have 4: "check_2d_list ?g = None"
    using grid_validation [of ?good quiet_remote "''Sheet1''" "''A1''" 100 "[]" "Rows []" ?g,
        THEN conjunct2, THEN conjunct2, THEN conjunct2, THEN mp, OF t] .
  from 1 2 3 4 t show ?thesis by simp
qed

section \<open>The retry loop of one batch\<close>

lemma puts_issued_append [simp]: "puts_issued (tr @ tr') = puts_issued tr + puts_issued tr'"
  by (simp add: puts_issued_def)

lemma puts_issued_Put [simp]: "puts_issued (Put rng vals r # tr) = Suc (puts_issued tr)"
  by (simp add: puts_issued_def)

lemma puts_issued_Sleep [simp]: "puts_issued (Sleep t # tr) = puts_issued tr"
  by (simp add: puts_issued_def)

lemma puts_issued_Nil [simp]: "puts_issued [] = 0"
  by (simp add: puts_issued_def)

lemma retries_0 [simp]: "retries R rng vals n0 a 0 = []"
  by (simp add: retries_def)

lemma retries_Suc:
  "retries R rng vals n0 a (Suc d) =
     [Put rng vals (put_reply R n0 rng vals), Sleep (10 * (a + 1))] @ retries R rng vals (Suc n0) (Suc a) d"
proof -
  have "[0..<Suc d] = 0 # map Suc [0..<d]"
    by (simp add: upt_conv_Cons map_Suc_upt del: upt_Suc)
  then show ?thesis by (simp add: retries_def comp_def del: upt_Suc)
qed

lemma puts_issued_retries [simp]: "puts_issued (retries R rng vals n0 a d) = d"
  by (induction d arbitrary: n0 a) (simp_all add: retries_Suc)

lemma sleeps_retries:
  "sleeps (retries R rng vals n0 a d) = map (\<lambda>j. 10 * (a + j + 1)) [0..<d]"
proof (induction d arbitrary: n0 a)
  case 0
  then show ?case by (simp add: sleeps_def)
next
  case (Suc d)
  have "[0..<Suc d] = 0 # map Suc [0..<d]"
    by (simp add: upt_conv_Cons map_Suc_upt del: upt_Suc)
  then have "map (\<lambda>j. 10 * (a + j + 1)) [0..<Suc d]
      = 10 * (a + 1) # map (\<lambda>j. 10 * (Suc a + j + 1)) [0..<d]"
    by (simp add: comp_def del: upt_Suc)
  moreover have "sleeps (retries R rng vals n0 a (Suc d))
      = 10 * (a + 1) # sleeps (retries R rng vals (Suc n0) (Suc a) d)"
    by (simp add: retries_Suc sleeps_def)
  ultimately show ?case using Suc.IH [of "Suc n0" "Suc a"] by simp
qed

lemma put_attempts_retry:
  assumes "a + d < max_attempts"
    and "\<forall>j < d. retryable (put_reply R (puts_issued tr + j) rng vals)"
  shows "put_attempts R batch_size rng vals [a..<max_attempts] tr =
         put_attempts R batch_size rng vals [a + d..<max_attempts]
           (tr @ retries R rng vals (puts_issued tr) a d)"
using assms proof (induction d arbitrary: a tr)
  case 0
  then show ?case by simp
next
  case (Suc d)
  let ?r = "put_reply R (puts_issued tr) rng vals"
  let ?tr = "tr @ [Put rng vals ?r, Sleep (10 * (a + 1))]"
  from Suc.prems(2) have "retryable ?r" by force
  then obtain code msg where r: "?r = Response code msg" "code \<noteq> 0" "code \<noteq> 90227"
    by (cases ?r) auto
  from Suc.prems(1) have a: "a < max_attempts" "a < max_attempts - 1" by simp_all
  then have l: "[a..<max_attempts] = a # [Suc a..<max_attempts]" by (simp add: upt_conv_Cons)
  have step: "put_attempts R batch_size rng vals [a..<max_attempts] tr =
      put_attempts R batch_size rng vals [Suc a..<max_attempts] ?tr"
    unfolding l using r a by (simp add: Let_def)
  have "\<forall>j < d. retryable (put_reply R (puts_issued ?tr + j) rng vals)"
    using Suc.prems(2) by auto
  with Suc.IH [of "Suc a" ?tr] Suc.prems(1)
  have "put_attempts R batch_size rng vals [Suc a..<max_attempts] ?tr =
        put_attempts R batch_size rng vals [Suc a + d..<max_attempts]
          (?tr @ retries R rng vals (puts_issued ?tr) (Suc a) d)"
    by simp
  with step show ?case by (simp add: retries_Suc)
qed

lemma put_attempts_last:
  assumes "k < max_attempts"
  shows "put_attempts R batch_size rng vals [k..<max_attempts] tr =
     (let reply = put_reply R (puts_issued tr) rng vals;
          tr1 = tr @ [Put rng vals reply]
      in case reply of
           No_response \<Rightarrow> (tr1, Inl Transport_error)
         | Response code msg \<Rightarrow>
             if code = 0 then (tr1, Inr ())
             else if code = 90227 then (tr1, Inl (Payload_too_large_batch batch_size))
             else if k < max_attempts - 1
             then put_attempts R batch_size rng vals [Suc k..<max_attempts] (tr1 @ [Sleep (10 * (k + 1))])
             else (tr1, Inl (Request_failed code msg)))"
proof -
  from assms have "[k..<max_attempts] = k # [Suc k..<max_attempts]" by (simp add: upt_conv_Cons)
  then show ?thesis by simp
qed

text \<open>
  C2. The attempts of one batch, with \<open>max_attempts = 5\<close>. Suppose the answers to the
  first \<open>k < 5\<close> attempts all carry a code other than 0 and 90227. Then the request is
  sent \<open>k + 1\<close> times, the waiting times before the retries are \<open>10 * (j + 1)\<close> for
  the attempts \<open>j < k\<close>, and the answer to attempt \<open>k\<close> decides: code 0 ends the loop
  with success; code 90227 ends it with the payload error, with no further request and no
  wait after it (for \<open>k = 0\<close>: one request, no wait); any other code at the last
  attempt \<open>k = 4\<close> ends it with a failure that carries this last code and message.
\<close>

theorem put_attempts_policy:
  assumes "k < max_attempts"
    and "\<forall>j < k. retryable (put_reply R (puts_issued tr + j) rng vals)"
  shows "max_attempts = 5 \<and>
    (let reply = put_reply R (puts_issued tr + k) rng vals;
         tr' = tr @ retries R rng vals (puts_issued tr) 0 k @ [Put rng vals reply];
         result = put_attempts R batch_size rng vals [0..<max_attempts] tr
     in puts_issued tr' = puts_issued tr + k + 1 \<and>
        sleeps tr' = sleeps tr @ map (\<lambda>j. 10 * (j + 1)) [0..<k] \<and>
        (\<forall>msg. reply = Response 0 msg \<longrightarrow> result = (tr', Inr ())) \<and>
        (\<forall>msg. reply = Response 90227 msg \<longrightarrow>
           result = (tr', Inl (Payload_too_large_batch batch_size))) \<and>
        (\<forall>code msg. reply = Response code msg \<and> code \<noteq> 0 \<and> code \<noteq> 90227 \<and>
           k = max_attempts - 1 \<longrightarrow> result = (tr', Inl (Request_failed code msg))))"
proof -
  let ?reply = "put_reply R (puts_issued tr + k) rng vals"
  let ?tr0 = "tr @ retries R rng vals (puts_issued tr) 0 k"
  let ?tr' = "tr @ retries R rng vals (puts_issued tr) 0 k @ [Put rng vals ?reply]"
  have run: "put_attempts R batch_size rng vals [0..<max_attempts] tr =
     put_attempts R batch_size rng vals [k..<max_attempts] ?tr0"
    using put_attempts_retry [of 0 k R tr rng vals batch_size] assms by simp
  have n: "puts_issued ?tr0 = puts_issued tr + k" by simp
  have s: "sleeps ?tr' = sleeps tr @ map (\<lambda>j. 10 * (j + 1)) [0..<k]"
    using sleeps_retries [of R rng vals "puts_issued tr" 0 k] by (simp add: sleeps_def)
  have ok: "put_attempts R batch_size rng vals [0..<max_attempts] tr = (?tr', Inr ())"
    if "?reply = Response 0 msg" for msg
    unfolding run using that n put_attempts_last [OF assms(1), of R batch_size rng vals ?tr0]
    by (simp add: Let_def)
  have big: "put_attempts R batch_size rng vals [0..<max_attempts] tr
      = (?tr', Inl (Payload_too_large_batch batch_size))"
    if "?reply = Response 90227 msg" for msg
    unfolding run using that n put_attempts_last [OF assms(1), of R batch_size rng vals ?tr0]
    by (simp add: Let_def)
  have ex: "put_attempts R batch_size rng vals [0..<max_attempts] tr
      = (?tr', Inl (Request_failed code msg))"
    if "?reply = Response code msg" "code \<noteq> 0" "code \<noteq> 90227" "k = max_attempts - 1"
    for code msg
    unfolding run using that n put_attempts_last [OF assms(1), of R batch_size rng vals ?tr0]
    by (simp add: Let_def)
  have m: "max_attempts = 5" by (simp add: max_attempts_def)
  have p: "puts_issued ?tr' = puts_issued tr + k + 1" by simp
  show ?thesis
    unfolding Let_def using m p s ok big ex by blast
qed


theorem put_attempts_policy_witness:
  "put_attempts flaky_remote 100 ''sid!A1:A1'' [[CNum 1]] [0..<max_attempts] []
     = ([Put ''sid!A1:A1'' [[CNum 1]] (Response 99991400 ''too many requests''), Sleep 10,
         Put ''sid!A1:A1'' [[CNum 1]] (Response 99991400 ''too many requests''), Sleep 20,
         Put ''sid!A1:A1'' [[CNum 1]] (Response 0 ''success'')], Inr ()) \<and>
   put_attempts too_large_remote 100 ''sid!A1:A1'' [[CNum 1]] [0..<max_attempts] []
     = ([Put ''sid!A1:A1'' [[CNum 1]] (Response 90227 ''too large'')],
        Inl (Payload_too_large_batch 100)) \<and>
   snd (put_attempts busy_remote 100 ''sid!A1:A1'' [[CNum 1]] [0..<max_attempts] [])
     = Inl (Request_failed 99991400 ''busy 4'') \<and>
   puts_issued (fst (put_attempts busy_remote 100 ''sid!A1:A1'' [[CNum 1]] [0..<max_attempts] [])) = 5 \<and>
   sleeps (fst (put_attempts busy_remote 100 ''sid!A1:A1'' [[CNum 1]] [0..<max_attempts] []))
     = [10, 20, 30, 40]"
proof -
  have 1: "put_attempts flaky_remote 100 ''sid!A1:A1'' [[CNum 1]] [0..<max_attempts] []
     = ([Put ''sid!A1:A1'' [[CNum 1]] (Response 99991400 ''too many requests''), Sleep 10,
         Put ''sid!A1:A1'' [[CNum 1]] (Response 99991400 ''too many requests''), Sleep 20,
         Put ''sid!A1:A1'' [[CNum 1]] (Response 0 ''success'')], Inr ())"
    using put_attempts_policy [of 2 flaky_remote "[]" "''sid!A1:A1''" "[[CNum 1]]" 100]
    by (simp add: max_attempts_def flaky_remote_def quiet_remote_def Let_def retries_def
        upt_conv_Cons)
  have 2: "put_attempts too_large_remote 100 ''sid!A1:A1'' [[CNum 1]] [0..<max_attempts] []
     = ([Put ''sid!A1:A1'' [[CNum 1]] (Response 90227 ''too large'')],
        Inl (Payload_too_large_batch 100))"
    using put_attempts_policy [of 0 too_large_remote "[]" "''sid!A1:A1''" "[[CNum 1]]" 100]
    by (simp add: max_attempts_def too_large_remote_def quiet_remote_def Let_def)
  have d4: "str_nat 4 = ''4''" by (simp add: str_nat_small digit_char_def char_eval)
  have 3: "snd (put_attempts busy_remote 100 ''sid!A1:A1'' [[CNum 1]] [0..<max_attempts] [])
       = Inl (Request_failed 99991400 ''busy 4'') \<and>
     puts_issued (fst (put_attempts busy_remote 100 ''sid!A1:A1'' [[CNum 1]] [0..<max_attempts] [])) = 5 \<and>
     sleeps (fst (put_attempts busy_remote 100 ''sid!A1:A1'' [[CNum 1]] [0..<max_attempts] []))
       = [10, 20, 30, 40]"
    using put_attempts_policy [of 4 busy_remote "[]" "''sid!A1:A1''" "[[CNum 1]]" 100]
    by (simp add: max_attempts_def busy_remote_def quiet_remote_def Let_def d4 sleeps_def
        upt_conv_Cons)
  from 1 2 3 show ?thesis by simp
qed

section \<open>The write plan\<close>

subsection \<open>range and slices\<close>

lemma py_range_pos:
  "0 < step \<Longrightarrow>
   py_range start stop step =
     map (\<lambda>k. start + int k * step) [0..<nat ((stop - start + step - 1) div step)]"
proof (induction start stop step rule: py_range.induct)
  case (1 start stop step)
  show ?case
  proof (cases "start < stop")
    case True
    define m where "m = nat ((stop - start - 1) div step)"
    have nn: "0 \<le> (stop - start - 1) div step"
      using True "1.prems" by (simp add: pos_imp_zdiv_nonneg_iff)
    have "(stop - start + step - 1) div step = (stop - start - 1) div step + 1"
      using "1.prems" div_add_self2 [of step "stop - start - 1"] by (simp add: algebra_simps)
    with nn have cnt: "nat ((stop - start + step - 1) div step) = Suc m"
      by (simp add: m_def nat_add_distrib)
    have "py_range (start + step) stop step =
        map (\<lambda>k. start + step + int k * step) [0..<m]"
      using "1.IH"(1) [OF "1.prems" True "1.prems"] by (simp add: m_def algebra_simps)
    moreover have "[0..<Suc m] = 0 # map Suc [0..<m]"
      by (simp add: upt_conv_Cons map_Suc_upt del: upt_Suc)
    ultimately show ?thesis
      using True "1.prems" unfolding cnt
      by (subst py_range.simps) (simp add: comp_def algebra_simps del: upt_Suc)
  next
    case False
    then have "stop - start + step - 1 < step" by simp
    then have "(stop - start + step - 1) div step \<le> 0"
      using "1.prems" by (smt (verit) div_pos_neg_trivial pos_imp_zdiv_neg_iff div_pos_pos_trivial)
    with False "1.prems" show ?thesis by (subst py_range.simps) simp
  qed
qed

lemma py_range_rows:
  assumes "0 < n"
  shows "py_range 0 (int len) (int n) = map (\<lambda>k. int (k * n)) [0..<(len + n - 1) div n]"
proof -
  have "(int len - 0 + int n - 1) div int n = int ((len + n - 1) div n)"
    using assms by (simp add: zdiv_int of_nat_diff algebra_simps)
  then show ?thesis using py_range_pos [of "int n" 0 "int len"] assms by simp
qed

lemma py_slice_nat:
  "py_slice xs (int a) (int b) = take (min b (length xs) - min a (length xs)) (drop a xs)"
proof -
  have "nat (min (int b) (int (length xs)) - min (int a) (int (length xs)))
      = min b (length xs) - min a (length xs)"
    unfolding of_nat_min [symmetric] by (simp add: nat_diff_distrib')
  moreover have "drop (nat (min (int a) (int (length xs)))) xs = drop a xs"
    by (simp add: min_def)
  ultimately show ?thesis by (simp add: py_slice_def Let_def)
qed

lemma py_slice_chunk:
  assumes "0 < n" "k * n < length xs"
  shows "py_slice xs (int (k * n)) (min (int (k * n) + int n) (int (length xs)))
           = take n (drop (k * n) xs)"
proof -
  have "min (int (k * n) + int n) (int (length xs)) = int (min (k * n + n) (length xs))"
    unfolding of_nat_add [symmetric] of_nat_min [symmetric] ..
  then have "py_slice xs (int (k * n)) (min (int (k * n) + int n) (int (length xs)))
     = take (min (min (k * n + n) (length xs)) (length xs) - min (k * n) (length xs)) (drop (k * n) xs)"
    using py_slice_nat [of xs "k * n" "min (k * n + n) (length xs)"] by simp
  also have "\<dots> = take n (drop (k * n) xs)"
    using assms by (auto simp: min_def)
  finally show ?thesis .
qed

lemma concat_chunks_take:
  "concat (map (\<lambda>k. take n (drop (k * n) xs)) [0..<m]) = take (m * n) xs"
proof (induction m)
  case 0
  then show ?case by simp
next
  case (Suc m)
  have "take (m * n) xs @ take n (drop (m * n) xs) = take (m * n + n) xs"
    by (simp add: take_add)
  with Suc show ?case by (simp add: add.commute)
qed

lemma chunk_count_covers:
  assumes "0 < (n::nat)"
  shows "len \<le> ((len + n - 1) div n) * n"
    and "k < (len + n - 1) div n \<Longrightarrow> k * n < len"
proof -
  have "len + n - 1 < ((len + n - 1) div n) * n + n"
    using assms by (metis add.commute dividend_less_times_div mult.commute)
  then show "len \<le> ((len + n - 1) div n) * n" by simp
  assume "k < (len + n - 1) div n"
  then have "Suc k \<le> (len + n - 1) div n" by simp
  then have "Suc k * n \<le> len + n - 1"
    using assms by (simp add: less_eq_div_iff_mult_less_eq)
  then show "k * n < len" using assms by simp
qed

subsection \<open>the parts of a start location\<close>

lemma match_here_parts:
  assumes "match_here s = Some (g1, g2)"
  shows "g1 \<noteq> [] \<and> (\<forall>c \<in> set g1. is_letter c) \<and> g2 \<noteq> [] \<and> (\<forall>c \<in> set g2. is_digit c)"
proof -
  from assms have g: "g1 = takeWhile is_letter s" "g2 = takeWhile is_digit (dropWhile is_letter s)"
    "g1 \<noteq> []" "g2 \<noteq> []"
    by (auto simp: match_here_def Let_def split: if_splits)
  from g(1) have "\<forall>c \<in> set g1. is_letter c" using set_takeWhileD by fastforce
  moreover from g(2) have "\<forall>c \<in> set g2. is_digit c" using set_takeWhileD by fastforce
  ultimately show ?thesis using g(3,4) by simp
qed

lemma re_search_parts:
  "re_search s = Some (g1, g2) \<Longrightarrow>
   g1 \<noteq> [] \<and> (\<forall>c \<in> set g1. is_letter c) \<and> g2 \<noteq> [] \<and> (\<forall>c \<in> set g2. is_digit c)"
proof (induction s)
  case Nil
  then show ?case by simp
next
  case (Cons c cs)
  show ?case
  proof (cases "match_here (c # cs)")
    case None
    with Cons show ?thesis by simp
  next
    case (Some g)
    with Cons.prems have "match_here (c # cs) = Some (g1, g2)" by simp
    then show ?thesis by (rule match_here_parts)
  qed
qed

lemma is_upper_upper_char: "is_letter c \<Longrightarrow> is_upper (upper_char c)"
proof -
  assume l: "is_letter c"
  show ?thesis
  proof (cases "is_lower c")
    case True
    then have "65 \<le> (of_char c :: nat) - 32" "(of_char c :: nat) - 32 \<le> 90"
      unfolding is_lower_def Let_def by arith+
    moreover from this have "(of_char (char_of ((of_char c :: nat) - 32) :: char) :: nat) = of_char c - 32"
      by (simp add: of_char_of)
    ultimately show ?thesis using True by (simp add: upper_char_def is_upper_def Let_def)
  next
    case False
    with l show ?thesis by (simp add: upper_char_def is_letter_def)
  qed
qed

lemma upper_letters:
  assumes "g1 \<noteq> []" "\<forall>c \<in> set g1. is_letter c"
  shows "upper g1 \<noteq> [] \<and> (\<forall>c \<in> set (upper g1). is_upper c)"
  using assms by (auto simp: upper_def is_upper_upper_char)

lemma re_search_start_cell:
  assumes "L \<noteq> []" "\<forall>c \<in> set L. is_upper c"
  shows "re_search (L @ str_int (int n + int i)) = Some (L, str_nat (n + i))"
    and "upper L = L" and "int_of_digits (str_nat (n + i)) = n + i"
proof -
  have "str_int (int n + int i) = str_nat (n + i)"
    by (simp add: str_int_def nat_add_distrib)
  moreover from assms(2) have "\<forall>c \<in> set L. is_letter c" by (simp add: is_letter_def)
  ultimately show "re_search (L @ str_int (int n + int i)) = Some (L, str_nat (n + i))"
    using re_search_cell [OF assms(1), of "str_nat (n + i)"] str_nat_nonempty str_nat_digits
    by simp
  show "upper L = L" using assms(2) by (rule upper_of_upper)
  show "int_of_digits (str_nat (n + i)) = n + i" by (rule int_of_digits_str_nat)
qed

lemma accepted_puts_append [simp]:
  "accepted_puts (tr @ tr') = accepted_puts tr @ accepted_puts tr'"
  by (simp add: accepted_puts_def)

lemma accepted_puts_Nil [simp]: "accepted_puts [] = []"
  by (simp add: accepted_puts_def)

lemma accepted_puts_Cons [simp]: "accepted_puts (ev # tr) = accepted_put ev @ accepted_puts tr"
  by (simp add: accepted_puts_def)

lemma put_attempts_accepted:
  assumes "a < max_attempts"
    and "put_attempts R batch_size rng vals [a..<max_attempts] tr = (tr', Inr ())"
  shows "accepted_puts tr' = accepted_puts tr @ [(rng, vals)]"
using assms proof (induction "max_attempts - a" arbitrary: a tr)
  case 0
  then show ?case by simp
next
  case (Suc d)
  let ?reply = "put_reply R (puts_issued tr) rng vals"
  note unf = put_attempts_last [OF Suc.prems(1), of R batch_size rng vals tr]
  show ?case
  proof (cases ?reply)
    case No_response
    with unf Suc.prems(2) show ?thesis by (simp add: Let_def)
  next
    case (Response code msg)
    show ?thesis
    proof (cases "code = 0")
      case True
      with unf Suc.prems(2) Response show ?thesis by (auto simp: Let_def)
    next
      case False
      with unf Suc.prems(2) Response have c: "code \<noteq> 90227" "a < max_attempts - 1"
        by (auto simp: Let_def split: if_splits)
      let ?tr = "(tr @ [Put rng vals ?reply]) @ [Sleep (10 * (a + 1))]"
      from unf Suc.prems(2) Response False c
      have run: "put_attempts R batch_size rng vals [Suc a..<max_attempts] ?tr = (tr', Inr ())"
        by (simp add: Let_def)
      from Suc.hyps(2) c(2) have "d = max_attempts - Suc a" "Suc a < max_attempts" by simp_all
      from Suc.hyps(1) [OF this run] Response False show ?thesis by simp
    qed
  qed
qed

lemma write_batches_accepted:
  assumes "write_batches R batch_size sheet_id start_letter start_number standard idxs tr = (tr', Inr ())"
  shows "\<exists>new. accepted_puts tr' = accepted_puts tr @ new \<and>
     list_all2 (\<lambda>i p. snd p = py_slice standard i (min (i + batch_size) (int (length standard))) \<and>
        (\<exists>r. complete_data_range (start_letter @ str_int (int start_number + i)) (snd p) = Inr r \<and>
             fst p = sheet_id @ ''!'' @ r)) idxs new"
using assms proof (induction idxs arbitrary: tr)
  case Nil
  then show ?case by simp
next
  case (Cons i rest)
  let ?chunk = "py_slice standard i (min (i + batch_size) (int (length standard)))"
  from Cons.prems obtain r where
    r: "complete_data_range (start_letter @ str_int (int start_number + i)) ?chunk = Inr r"
    by (cases "complete_data_range (start_letter @ str_int (int start_number + i)) ?chunk")
      (simp_all add: Let_def)
  obtain tr1 res where
    p: "put_attempts R batch_size (sheet_id @ ''!'' @ r) ?chunk [0..<max_attempts] tr = (tr1, res)"
    by (cases "put_attempts R batch_size (sheet_id @ ''!'' @ r) ?chunk [0..<max_attempts] tr")
  with Cons.prems r have res: "res = Inr ()"
    by (cases res) (simp_all add: Let_def)
  with Cons.prems r p
  have rec: "write_batches R batch_size sheet_id start_letter start_number standard rest tr1 = (tr', Inr ())"
    by (simp add: Let_def)
  have "0 < max_attempts" by (simp add: max_attempts_def)
  from put_attempts_accepted [OF this] p res
  have a1: "accepted_puts tr1 = accepted_puts tr @ [(sheet_id @ ''!'' @ r, ?chunk)]" by simp
  from Cons.IH [OF rec] obtain new where
    new: "accepted_puts tr' = accepted_puts tr1 @ new"
      "list_all2 (\<lambda>i p. snd p = py_slice standard i (min (i + batch_size) (int (length standard))) \<and>
        (\<exists>r. complete_data_range (start_letter @ str_int (int start_number + i)) (snd p) = Inr r \<and>
             fst p = sheet_id @ ''!'' @ r)) rest new"
    by blast
  let ?new = "(sheet_id @ ''!'' @ r, ?chunk) # new"
  from new(1) a1 have "accepted_puts tr' = accepted_puts tr @ ?new" by simp
  moreover from new(2) r have
    "list_all2 (\<lambda>i p. snd p = py_slice standard i (min (i + batch_size) (int (length standard))) \<and>
        (\<exists>r. complete_data_range (start_letter @ str_int (int start_number + i)) (snd p) = Inr r \<and>
             fst p = sheet_id @ ''!'' @ r)) (i # rest) ?new"
    by simp
  ultimately show ?case by blast
qed

lemma check_2d_list_standard_data:
  "check_2d_list (standard_data grid) = check_2d_list grid"
proof -
  have "[] \<in> set (standard_data grid) \<longleftrightarrow> [] \<in> set grid"
    by (auto simp: standard_data_def)
  moreover have "map length (standard_data grid) = map length grid"
    by (simp add: standard_data_def comp_def)
  ultimately show ?thesis by (simp add: check_2d_list_def collect_elem_len_eq)
qed

lemma check_2d_list_chunk:
  assumes "check_2d_list xs = None" "0 < n" "k * n < length xs"
  shows "check_2d_list (take n (drop (k * n) xs)) = None"
    and "length (hd (take n (drop (k * n) xs))) = length (hd xs)"
proof -
  let ?c = "take n (drop (k * n) xs)"
  from assms(1) have x: "[] \<notin> set xs" "\<forall>r \<in> set xs. length r = length (hd xs)"
    using check_2d_list_None [of xs] by blast+
  have ne: "?c \<noteq> []" using assms(2,3) by simp
  have sub: "set ?c \<subseteq> set xs"
    using set_take_subset set_drop_subset by (metis subset_trans)
  from ne sub have "hd ?c \<in> set xs" using hd_in_set by blast
  with x(2) show h: "length (hd ?c) = length (hd xs)" by blast
  from sub x h have "[] \<notin> set ?c" "\<forall>r \<in> set ?c. length r = length (hd ?c)" by auto
  with ne show "check_2d_list ?c = None" using check_2d_list_None [of ?c] by blast
qed

lemma connect_result:
  "connect R sheet_name = (tr, res) \<Longrightarrow> accepted_puts tr = [] \<and> puts_issued tr = 0"
  by (auto simp: connect_def puts_issued_def split: option.splits)

lemma batch_write_success_parts:
  assumes "batch_write_multi_data R sheet_name start_loc input_data batch_size = (tr, Inr ())"
  shows "\<exists>grid tr0 sheet_id g1 g2.
     format_input input_data = Inr grid \<and> check_2d_list grid = None \<and>
     connect R sheet_name = (tr0, Inr sheet_id) \<and>
     re_search start_loc = Some (g1, g2) \<and> batch_size \<noteq> 0 \<and>
     write_batches R batch_size sheet_id (upper g1) (int_of_digits g2) (standard_data grid)
       (py_range 0 (int (length (standard_data grid))) batch_size) tr0 = (tr, Inr ())"
proof -
  from assms obtain grid where g: "format_input input_data = Inr grid"
    by (cases "format_input input_data") (simp_all add: batch_write_multi_data_def)
  with assms have c: "check_2d_list grid = None"
    by (cases "check_2d_list grid") (simp_all add: batch_write_multi_data_def)
  obtain tr0 res where cn: "connect R sheet_name = (tr0, res)" by (cases "connect R sheet_name")
  with assms g c obtain sheet_id where s: "res = Inr sheet_id"
    by (cases res) (simp_all add: batch_write_multi_data_def Let_def)
  from assms g c cn s obtain g1 g2 where m: "re_search start_loc = Some (g1, g2)"
    by (cases "re_search start_loc") (auto simp: batch_write_multi_data_def Let_def)
  from assms g c cn s m have b: "batch_size \<noteq> 0"
    by (auto simp: batch_write_multi_data_def Let_def batch_num_def)
  from assms g c cn s m b
  have "write_batches R batch_size sheet_id (upper g1) (int_of_digits g2) (standard_data grid)
       (py_range 0 (int (length (standard_data grid))) batch_size) tr0 = (tr, Inr ())"
    by (auto simp: batch_write_multi_data_def Let_def batch_num_def split: prod.splits sum.splits)
  with g c cn s m b show ?thesis by blast
qed

lemma chunk_range:
  assumes "check_2d_list std = None" "0 < n" "k * n < length std"
    and "L \<noteq> []" "\<forall>c \<in> set L. is_upper c"
  shows "complete_data_range (L @ str_int (int n0 + int (k * n))) (take n (drop (k * n) std)) =
      (case col_to_order L of
         None \<Rightarrow> Inl (Failed ''complete_data_range'' (Key_error_col L))
       | Some start_order \<Rightarrow>
           (let end_letter_order = start_order + length (hd std) - 1
            in if end_letter_order < 702
               then Inr (L @ str_nat (n0 + k * n) @ '':'' @ A_ZZ_list ! end_letter_order
                         @ str_nat (n0 + k * n + length (take n (drop (k * n) std)) - 1))
               else Inl (Failed ''complete_data_range'' (Key_error_order end_letter_order))))"
proof -
  note ch = check_2d_list_chunk [OF assms(1,2,3)]
  note st = re_search_start_cell(1) [OF assms(4,5), of n0 "k * n"]
    re_search_start_cell(2) [OF assms(4,5)]
    re_search_start_cell(3) [OF assms(4,5), of n0 "k * n"]
  show ?thesis
  proof (cases "col_to_order L")
    case None
    with st ch(1) show ?thesis by (simp add: complete_data_range_def Let_def)
  next
    case (Some start_order)
    have "col_to_order (upper L) = Some start_order" using Some st(2) by simp
    from complete_data_range_checked [OF st(1) ch(1) this] Some st(2,3) ch(2)
    show ?thesis by (simp add: Let_def)
  qed
qed

lemma batch_write_accepted:
  assumes "batch_write_multi_data R sheet_name start_loc input_data batch_size = (tr, Inr ())"
    and "0 < batch_size"
  shows "\<exists>grid tr0 sheet_id g1 g2 start_order.
     format_input input_data = Inr grid \<and> check_2d_list grid = None \<and>
     connect R sheet_name = (tr0, Inr sheet_id) \<and>
     re_search start_loc = Some (g1, g2) \<and>
     col_to_order (upper g1) = Some start_order \<and>
     start_order + length (hd grid) - 1 < 702 \<and>
     accepted_puts tr =
       planned_chunks sheet_id (upper g1) (int_of_digits g2)
         (A_ZZ_list ! (start_order + length (hd grid) - 1)) (standard_data grid) (nat batch_size)"
proof -
  from batch_write_success_parts [OF assms(1)] obtain grid tr0 sheet_id g1 g2 where
    g: "format_input input_data = Inr grid" and c: "check_2d_list grid = None" and
    cn: "connect R sheet_name = (tr0, Inr sheet_id)" and
    m: "re_search start_loc = Some (g1, g2)" and
    w: "write_batches R batch_size sheet_id (upper g1) (int_of_digits g2) (standard_data grid)
         (py_range 0 (int (length (standard_data grid))) batch_size) tr0 = (tr, Inr ())"
    by blast
  define std where "std = standard_data grid"
  define n where "n = nat batch_size"
  define L where "L = upper g1"
  define n0 where "n0 = int_of_digits g2"
  define cnt where "cnt = (length std + n - 1) div n"
  have n: "0 < n" "batch_size = int n" using assms(2) by (simp_all add: n_def)
  have cs: "check_2d_list std = None" using c by (simp add: std_def check_2d_list_standard_data)
  then have ne: "std \<noteq> []" using check_2d_list_None [of std] by blast
  have hdl: "length (hd std) = length (hd grid)"
    using ne by (simp add: std_def standard_data_def hd_map)
  have L: "L \<noteq> []" "\<forall>c \<in> set L. is_upper c"
    using re_search_parts [OF m] upper_letters [of g1] by (simp_all add: L_def)
  have idxs: "py_range 0 (int (length std)) batch_size = map (\<lambda>k. int (k * n)) [0..<cnt]"
    using py_range_rows [OF n(1), of "length std"] by (simp add: n(2) cnt_def)
  have cnt0: "0 < cnt"
  proof -
    have "n \<le> length std + n - 1" using ne by (cases std) simp_all
    then show ?thesis using n(1) by (simp add: cnt_def div_greater_zero_iff)
  qed
  from write_batches_accepted [OF w [folded std_def L_def n0_def, unfolded idxs]]
  obtain new where new: "accepted_puts tr = accepted_puts tr0 @ new" and
    all: "list_all2 (\<lambda>i p. snd p = py_slice std i (min (i + batch_size) (int (length std))) \<and>
        (\<exists>r. complete_data_range (L @ str_int (int n0 + i)) (snd p) = Inr r \<and>
             fst p = sheet_id @ ''!'' @ r)) (map (\<lambda>k. int (k * n)) [0..<cnt]) new"
    by blast
  from all have len: "length new = cnt" by (auto dest: list_all2_lengthD)
  have each: "snd (new ! k) = take n (drop (k * n) std) \<and>
      (\<exists>r. complete_data_range (L @ str_int (int n0 + int (k * n))) (take n (drop (k * n) std)) = Inr r \<and>
           fst (new ! k) = sheet_id @ ''!'' @ r)"
    if "k < cnt" for k
  proof -
    from that have kn: "k * n < length std"
      using chunk_count_covers(2) [OF n(1), of k "length std"] by (simp add: cnt_def)
    have "k < length (map (\<lambda>k. int (k * n)) [0..<cnt])" using that by simp
    from list_all2_nthD [OF all this] that have
      "snd (new ! k) = py_slice std (int (k * n)) (min (int (k * n) + batch_size) (int (length std))) \<and>
       (\<exists>r. complete_data_range (L @ str_int (int n0 + int (k * n))) (snd (new ! k)) = Inr r \<and>
             fst (new ! k) = sheet_id @ ''!'' @ r)"
      by (auto simp del: of_nat_mult of_nat_add)
    then show ?thesis using py_slice_chunk [OF n(1) kn] unfolding n(2) by metis
  qed
  have range_of: "complete_data_range (L @ str_int (int n0 + int (k * n))) (take n (drop (k * n) std)) =
      (case col_to_order L of
         None \<Rightarrow> Inl (Failed ''complete_data_range'' (Key_error_col L))
       | Some start_order \<Rightarrow>
           (let end_letter_order = start_order + length (hd grid) - 1
            in if end_letter_order < 702
               then Inr (L @ str_nat (n0 + k * n) @ '':'' @ A_ZZ_list ! end_letter_order
                         @ str_nat (n0 + k * n + length (take n (drop (k * n) std)) - 1))
               else Inl (Failed ''complete_data_range'' (Key_error_order end_letter_order))))"
    if "k < cnt" for k
  proof -
    from that have kn: "k * n < length std"
      using chunk_count_covers(2) [OF n(1), of k "length std"] by (simp add: cnt_def)
    show ?thesis using chunk_range [OF cs n(1) kn L, of n0] unfolding hdl .
  qed
  from each [OF cnt0] range_of [OF cnt0] obtain start_order where
    so: "col_to_order L = Some start_order" "start_order + length (hd grid) - 1 < 702"
    by (cases "col_to_order L") (auto simp: Let_def split: if_splits)
  have "new = planned_chunks sheet_id L n0 (A_ZZ_list ! (start_order + length (hd grid) - 1)) std n"
  proof (rule nth_equalityI)
    show "length new = length (planned_chunks sheet_id L n0
        (A_ZZ_list ! (start_order + length (hd grid) - 1)) std n)"
      using len by (simp add: planned_chunks_def cnt_def)
  next
    fix k assume "k < length new"
    with len have k: "k < cnt" by simp
    from each [OF k] range_of [OF k] so
    have "new ! k = (sheet_id @ ''!'' @ L @ str_nat (n0 + k * n) @ '':''
          @ A_ZZ_list ! (start_order + length (hd grid) - 1)
          @ str_nat (n0 + k * n + length (take n (drop (k * n) std)) - 1), take n (drop (k * n) std))"
      by (cases "new ! k") (auto simp: Let_def)
    with k show "new ! k = planned_chunks sheet_id L n0
        (A_ZZ_list ! (start_order + length (hd grid) - 1)) std n ! k"
      by (simp add: planned_chunks_def cnt_def Let_def)
  qed
  with new connect_result [OF cn]
  have "accepted_puts tr = planned_chunks sheet_id L n0
      (A_ZZ_list ! (start_order + length (hd grid) - 1)) std n"
    by simp
  with g c cn m so show ?thesis unfolding L_def n0_def std_def n_def by blast
qed

lemma put_attempts_first_ok:
  assumes "put_reply R (puts_issued tr) rng vals = Response 0 msg"
  shows "put_attempts R batch_size rng vals [0..<max_attempts] tr
           = (tr @ [Put rng vals (Response 0 msg)], Inr ())"
proof -
  have "0 < max_attempts" by (simp add: max_attempts_def)
  from put_attempts_last [OF this, of R batch_size rng vals tr] assms
  show ?thesis by (simp add: Let_def)
qed

lemma write_batches_succeeds:
  assumes "\<forall>k rng vals. \<exists>msg. put_reply R k rng vals = Response 0 msg"
    and "\<forall>i \<in> set idxs. \<exists>r. complete_data_range (start_letter @ str_int (int start_number + i))
           (py_slice standard i (min (i + batch_size) (int (length standard)))) = Inr r"
  shows "\<exists>tr'. write_batches R batch_size sheet_id start_letter start_number standard idxs tr
           = (tr', Inr ())"
using assms(2) proof (induction idxs arbitrary: tr)
  case Nil
  then show ?case by simp
next
  case (Cons i rest)
  let ?chunk = "py_slice standard i (min (i + batch_size) (int (length standard)))"
  from Cons.prems obtain r where
    r: "complete_data_range (start_letter @ str_int (int start_number + i)) ?chunk = Inr r"
    by auto
  from assms(1) obtain msg where
    "put_reply R (puts_issued tr) (sheet_id @ ''!'' @ r) ?chunk = Response 0 msg" by blast
  from put_attempts_first_ok [OF this]
  have p: "put_attempts R batch_size (sheet_id @ ''!'' @ r) ?chunk [0..<max_attempts] tr
      = (tr @ [Put (sheet_id @ ''!'' @ r) ?chunk (Response 0 msg)], Inr ())" .
  from Cons.prems have "\<forall>i \<in> set rest. \<exists>r. complete_data_range
      (start_letter @ str_int (int start_number + i))
      (py_slice standard i (min (i + batch_size) (int (length standard)))) = Inr r"
    by simp
  from Cons.IH [OF this, of "tr @ [Put (sheet_id @ ''!'' @ r) ?chunk (Response 0 msg)]"]
  obtain tr' where "write_batches R batch_size sheet_id start_letter start_number standard rest
      (tr @ [Put (sheet_id @ ''!'' @ r) ?chunk (Response 0 msg)]) = (tr', Inr ())" by blast
  with r p show ?case by (simp add: Let_def)
qed

lemma batch_write_succeeds:
  assumes "format_input input_data = Inr grid" "check_2d_list grid = None"
    and "connect R sheet_name = (tr0, Inr sheet_id)"
    and "re_search start_loc = Some (g1, g2)"
    and "col_to_order (upper g1) = Some start_order"
    and "start_order + length (hd grid) - 1 < 702"
    and "0 < batch_size"
    and "\<forall>k rng vals. \<exists>msg. put_reply R k rng vals = Response 0 msg"
  shows "\<exists>tr. batch_write_multi_data R sheet_name start_loc input_data batch_size = (tr, Inr ())"
proof -
  define std where "std = standard_data grid"
  define n where "n = nat batch_size"
  have n: "0 < n" "batch_size = int n" using assms(7) by (simp_all add: n_def)
  have cs: "check_2d_list std = None"
    using assms(2) by (simp add: std_def check_2d_list_standard_data)
  then have ne: "std \<noteq> []" using check_2d_list_None [of std] by blast
  have hdl: "length (hd std) = length (hd grid)"
    using ne by (simp add: std_def standard_data_def hd_map)
  have L: "upper g1 \<noteq> []" "\<forall>c \<in> set (upper g1). is_upper c"
    using re_search_parts [OF assms(4)] upper_letters [of g1] by simp_all
  have idxs: "py_range 0 (int (length std)) batch_size
      = map (\<lambda>k. int (k * n)) [0..<(length std + n - 1) div n]"
    using py_range_rows [OF n(1), of "length std"] by (simp add: n(2))
  have "\<forall>i \<in> set (py_range 0 (int (length std)) batch_size).
      \<exists>r. complete_data_range (upper g1 @ str_int (int (int_of_digits g2) + i))
           (py_slice std i (min (i + batch_size) (int (length std)))) = Inr r"
  proof
    fix i assume "i \<in> set (py_range 0 (int (length std)) batch_size)"
    then obtain k where k: "k < (length std + n - 1) div n" "i = int (k * n)"
      unfolding idxs by auto
    from k(1) have kn: "k * n < length std" using chunk_count_covers(2) [OF n(1)] by simp
    have "py_slice std i (min (i + batch_size) (int (length std))) = take n (drop (k * n) std)"
      using py_slice_chunk [OF n(1) kn] unfolding k(2) n(2) .
    with chunk_range [OF cs n(1) kn L, of "int_of_digits g2"] assms(5,6) hdl k(2)
    show "\<exists>r. complete_data_range (upper g1 @ str_int (int (int_of_digits g2) + i))
           (py_slice std i (min (i + batch_size) (int (length std)))) = Inr r"
      by (simp add: Let_def)
  qed
  from write_batches_succeeds [OF assms(8) this] obtain tr where
    "write_batches R batch_size sheet_id (upper g1) (int_of_digits g2) std
       (py_range 0 (int (length std)) batch_size) tr0 = (tr, Inr ())" by blast
  with assms(1,2,3,4,7) have
    "batch_write_multi_data R sheet_name start_loc input_data batch_size = (tr, Inr ())"
    by (simp add: batch_write_multi_data_def Let_def batch_num_def std_def)
  then show ?thesis ..
qed

subsection \<open>Properties of the plan\<close>

lemma length_planned_chunks:
  "length (planned_chunks sheet_id L n0 E std n) = (length std + n - 1) div n"
  by (simp add: planned_chunks_def)

lemma nth_planned_chunks:
  "k < (length std + n - 1) div n \<Longrightarrow>
   planned_chunks sheet_id L n0 E std n ! k =
     (sheet_id @ ''!'' @ L @ str_nat (n0 + k * n) @ '':'' @ E
        @ str_nat (n0 + k * n + length (take n (drop (k * n) std)) - 1),
      take n (drop (k * n) std))"
  by (simp add: planned_chunks_def Let_def)

lemma take_upt_min: "take j [0..<m] = [0..<min j m]"
  by (cases "j \<le> m") (simp_all add: min_def)

lemma snd_planned_chunks:
  "map snd (take j (planned_chunks sheet_id L n0 E std n))
     = map (\<lambda>k. take n (drop (k * n) std)) [0..<min j ((length std + n - 1) div n)]"
  by (simp add: planned_chunks_def Let_def take_map comp_def take_upt_min del: take_upt)

lemma concat_take_planned_chunks:
  "concat (map snd (take j (planned_chunks sheet_id L n0 E std n)))
     = take (min j ((length std + n - 1) div n) * n) std"
  by (simp only: snd_planned_chunks concat_chunks_take)

lemma concat_planned_chunks:
  assumes "0 < n"
  shows "concat (map snd (planned_chunks sheet_id L n0 E std n)) = std"
proof -
  let ?m = "(length std + n - 1) div n"
  have "concat (map snd (take ?m (planned_chunks sheet_id L n0 E std n))) = take (?m * n) std"
    using concat_take_planned_chunks [of ?m sheet_id L n0 E std n] by simp
  moreover have "take ?m (planned_chunks sheet_id L n0 E std n) = planned_chunks sheet_id L n0 E std n"
    by (simp add: length_planned_chunks)
  ultimately show ?thesis using chunk_count_covers(1) [OF assms, of "length std"] by simp
qed

lemma ceil_div_split:
  assumes "0 < (n::nat)"
  shows "(len + n - 1) div n = len div n + (if len mod n \<noteq> 0 then 1 else 0)"
proof (cases "len mod n = 0")
  case True
  then have "n dvd len" by (simp add: mod_eq_0_iff_dvd)
  then obtain q where q: "len = q * n" by (metis dvd_def mult.commute)
  have "q * n + n - 1 = (n - 1) + q * n" using assms by simp
  then have "(q * n + n - 1) div n = (n - 1) div n + q"
    using assms by (simp only: div_mult_self1) 
  moreover have "(n - 1) div n = 0" using assms by simp
  ultimately show ?thesis using True q assms by simp
next
  case False
  define r where "r = len mod n"
  define q where "q = len div n"
  have r: "0 < r" "r < n" "len = q * n + r" using False assms by (simp_all add: r_def q_def)
  have "len + n - 1 = (r - 1) + Suc q * n" using r by simp
  then have "(len + n - 1) div n = (r - 1) div n + Suc q"
    using assms by (simp only: div_mult_self1)
  moreover have "(r - 1) div n = 0" using r by simp
  ultimately show ?thesis using False by (simp add: q_def)
qed

lemma int_ceil_div:
  "int len div int n + (if int len mod int n \<noteq> 0 then 1 else 0)
      = int (len div n + (if len mod n \<noteq> 0 then 1 else 0))"
proof -
  have "int len mod int n \<noteq> 0 \<longleftrightarrow> len mod n \<noteq> 0"
    by (metis of_nat_mod of_nat_eq_0_iff)
  then show ?thesis by (simp add: zdiv_int)
qed

lemma batch_num_eq:
  assumes "0 < n"
  shows "batch_num (int len) (int n) = Inr (int ((len + n - 1) div n))"
  using assms int_ceil_div [of len n] ceil_div_split [OF assms, of len]
  by (simp add: batch_num_def del: of_nat_add)

lemma connect_Inr:
  "connect R sheet_name = (tr0, Inr sheet_id) \<Longrightarrow> tr0 = [Token_request, Sheet_query]"
  by (auto simp: connect_def split: option.splits)

lemma sanitize_id: "\<not> isna c \<Longrightarrow> sanitize c = c"
  by (simp add: sanitize_def)

lemma standard_data_id:
  "\<forall>row \<in> set grid. \<forall>c \<in> set row. \<not> isna c \<Longrightarrow> standard_data grid = grid"
  by (simp add: standard_data_def sanitize_id map_idI)

text \<open>
  C1. Whenever \<open>batch_write_multi_data\<close> returns normally for a batch size of at least
  1, the grid it was given is non-empty with rows of one length, and the writes the remote
  accepted are, in the order they were issued, the chunks of the plan: there are
  \<open>(rows + n - 1) div n\<close> of them (the least number whose \<open>n\<close>-fold covers the
  rows, which is also what \<open>batch_num\<close> computes), each is non-empty and has at most
  \<open>n\<close> rows, their concatenation is the grid after the null-value step (the grid
  itself when it has no null-like cell), and the range of each chunk starts in the start
  column at the start row plus the number of rows of all earlier chunks and ends in one
  fixed end column. For 250 rows from \<open>C10\<close> with batch size 100 the accepted writes
  are three chunks of 100, 100 and 50 rows at \<open>C10\<close>, \<open>C110\<close> and \<open>C210\<close>.
\<close>

theorem batch_write_plan:
  assumes "format_input input_data = Inr grid"
    and "0 < batch_size"
    and "batch_write_multi_data R sheet_name start_loc input_data batch_size = (tr, Inr ())"
  shows "\<exists>sheet_id g1 g2 start_order end_letter.
     check_2d_list grid = None \<and>
     connect R sheet_name = ([Token_request, Sheet_query], Inr sheet_id) \<and>
     re_search start_loc = Some (g1, g2) \<and>
     col_to_order (upper g1) = Some start_order \<and>
     col_to_order end_letter = Some (start_order + length (hd grid) - 1) \<and>
     (let n = nat batch_size; chunks = accepted_puts tr
      in chunks = planned_chunks sheet_id (upper g1) (int_of_digits g2) end_letter
                    (standard_data grid) n \<and>
         length chunks = (length grid + n - 1) div n \<and>
         length grid \<le> length chunks * n \<and> (length chunks - 1) * n < length grid \<and>
         batch_num (int (length grid)) batch_size = Inr (int (length chunks)) \<and>
         concat (map snd chunks) = standard_data grid \<and>
         ((\<forall>row \<in> set grid. \<forall>c \<in> set row. \<not> isna c) \<longrightarrow> concat (map snd chunks) = grid) \<and>
         (\<forall>k < length chunks.
            snd (chunks ! k) \<noteq> [] \<and> length (snd (chunks ! k)) \<le> n \<and>
            length (concat (map snd (take k chunks))) = k * n \<and>
            fst (chunks ! k) =
              sheet_id @ ''!'' @ upper g1
                @ str_nat (int_of_digits g2 + length (concat (map snd (take k chunks))))
                @ '':'' @ end_letter
                @ str_nat (int_of_digits g2 + length (concat (map snd (take (Suc k) chunks))) - 1)))"
proof -
  from batch_write_accepted [OF assms(3,2)] assms(1)
  obtain tr0 sheet_id g1 g2 start_order where
    c: "check_2d_list grid = None" and
    cn: "connect R sheet_name = (tr0, Inr sheet_id)" and
    m: "re_search start_loc = Some (g1, g2)" and
    so: "col_to_order (upper g1) = Some start_order"
        "start_order + length (hd grid) - 1 < 702" and
    acc: "accepted_puts tr = planned_chunks sheet_id (upper g1) (int_of_digits g2)
           (A_ZZ_list ! (start_order + length (hd grid) - 1)) (standard_data grid) (nat batch_size)"
    by auto
  define n where "n = nat batch_size"
  define std where "std = standard_data grid"
  define E where "E = A_ZZ_list ! (start_order + length (hd grid) - 1)"
  define L where "L = upper g1"
  define n0 where "n0 = int_of_digits g2"
  define chunks where "chunks = accepted_puts tr"
  define cnt where "cnt = (length std + n - 1) div n"
  have n: "0 < n" "batch_size = int n" using assms(2) by (simp_all add: n_def)
  have len: "length std = length grid" by (simp add: std_def standard_data_def)
  have pl: "chunks = planned_chunks sheet_id L n0 E std n"
    using acc by (simp add: chunks_def L_def n0_def E_def std_def n_def)
  have lc: "length chunks = cnt" by (simp add: pl length_planned_chunks cnt_def)
  from c have "grid \<noteq> []" using check_2d_list_None [of grid] by blast
  then have pos: "0 < length std" by (simp add: len)
  have cnt0: "0 < cnt"
  proof -
    have "n \<le> length std + n - 1" using pos by arith
    then show ?thesis using n(1) by (simp add: cnt_def div_greater_zero_iff)
  qed
  have cover: "length std \<le> cnt * n" "(cnt - 1) * n < length std"
    using chunk_count_covers(1) [OF n(1), of "length std"]
      chunk_count_covers(2) [OF n(1), of "cnt - 1" "length std"] cnt0
    by (simp_all add: cnt_def)
  have cc: "concat (map snd chunks) = std"
    using concat_planned_chunks [OF n(1)] by (simp add: pl)
  have bn: "batch_num (int (length grid)) batch_size = Inr (int (length chunks))"
    using batch_num_eq [OF n(1), of "length grid"] by (simp add: n(2) lc cnt_def len)
  have each: "snd (chunks ! k) \<noteq> [] \<and> length (snd (chunks ! k)) \<le> n \<and>
            length (concat (map snd (take k chunks))) = k * n \<and>
            fst (chunks ! k) =
              sheet_id @ ''!'' @ L
                @ str_nat (n0 + length (concat (map snd (take k chunks))))
                @ '':'' @ E
                @ str_nat (n0 + length (concat (map snd (take (Suc k) chunks))) - 1)"
    if "k < length chunks" for k
  proof -
    from that have k: "k < cnt" by (simp add: lc)
    then have kn: "k * n < length std"
      using chunk_count_covers(2) [OF n(1), of k "length std"] by (simp add: cnt_def)
    have nth: "chunks ! k = (sheet_id @ ''!'' @ L @ str_nat (n0 + k * n) @ '':'' @ E
        @ str_nat (n0 + k * n + length (take n (drop (k * n) std)) - 1),
      take n (drop (k * n) std))"
      using nth_planned_chunks [of k std n sheet_id L n0 E] k by (simp add: pl cnt_def)
    have before: "concat (map snd (take k chunks)) = take (k * n) std"
      using concat_take_planned_chunks [of k sheet_id L n0 E std n] k
      by (simp add: pl cnt_def min_def)
    have upto: "concat (map snd (take (Suc k) chunks)) = take (Suc k * n) std"
      using concat_take_planned_chunks [of "Suc k" sheet_id L n0 E std n] k
      by (simp add: pl cnt_def min_def)
    have l1: "length (take (k * n) std) = k * n" using kn by simp
    have "Suc k * n = k * n + n" by simp
    then have "take (Suc k * n) std = take (k * n) std @ take n (drop (k * n) std)"
      by (simp only: take_add)
    then have l2: "length (take (Suc k * n) std) = k * n + length (take n (drop (k * n) std))"
      using l1 by simp
    have ne: "take n (drop (k * n) std) \<noteq> []" using kn n(1) by simp
    show ?thesis
      unfolding before upto l1 l2 nth using ne by (simp add: add.assoc)
  qed
  have e: "col_to_order E = Some (start_order + length (hd grid) - 1)"
    using so(2) by (simp add: E_def col_to_order_nth)
  have "chunks = planned_chunks sheet_id L n0 E std n \<and>
         length chunks = (length grid + n - 1) div n \<and>
         length grid \<le> length chunks * n \<and> (length chunks - 1) * n < length grid \<and>
         batch_num (int (length grid)) batch_size = Inr (int (length chunks)) \<and>
         concat (map snd chunks) = std \<and>
         ((\<forall>row \<in> set grid. \<forall>c \<in> set row. \<not> isna c) \<longrightarrow> concat (map snd chunks) = grid) \<and>
         (\<forall>k < length chunks.
            snd (chunks ! k) \<noteq> [] \<and> length (snd (chunks ! k)) \<le> n \<and>
            length (concat (map snd (take k chunks))) = k * n \<and>
            fst (chunks ! k) =
              sheet_id @ ''!'' @ L
                @ str_nat (n0 + length (concat (map snd (take k chunks))))
                @ '':'' @ E
                @ str_nat (n0 + length (concat (map snd (take (Suc k) chunks))) - 1))"
  proof -
    have f1: "length chunks = (length grid + n - 1) div n" using lc by (simp add: cnt_def len)
    have f2: "length grid \<le> length chunks * n" using cover(1) by (simp add: lc len)
    have f3: "(length chunks - 1) * n < length grid" using cover(2) by (simp add: lc len)
    have f6: "(\<forall>row \<in> set grid. \<forall>c \<in> set row. \<not> isna c) \<longrightarrow> concat (map snd chunks) = grid"
      using cc standard_data_id [of grid] by (simp add: std_def)
    from pl f1 f2 f3 bn cc f6 each show ?thesis by blast
  qed
  with c cn connect_Inr [OF cn] m so(1) e show ?thesis
    unfolding Let_def n_def chunks_def L_def n0_def std_def
    by blast
qed

lemmas str_nat_eval = str_nat_small str_nat_step digit_char_def char_eval

lemmas parse_eval = match_here_def is_letter_def is_upper_def is_lower_def is_digit_def
  upper_def upper_char_def int_of_digits_def

theorem batch_write_plan_witness:
  "snd (batch_write_multi_data quiet_remote ''Sheet1'' ''C10''
          (Rows (replicate 250 [CNum 7, CNone])) 100) = Inr () \<and>
   accepted_puts (fst (batch_write_multi_data quiet_remote ''Sheet1'' ''C10''
          (Rows (replicate 250 [CNum 7, CNone])) 100)) =
     [(''sid!C10:D109'', replicate 100 [CNum 7, CStr '''']),
      (''sid!C110:D209'', replicate 100 [CNum 7, CStr '''']),
      (''sid!C210:D259'', replicate 50 [CNum 7, CStr ''''])]"
proof -
  let ?g = "replicate 250 [CNum 7, CNone]"
  have f: "format_input (Rows ?g) = Inr ?g" by (simp add: format_input_def)
  have c: "check_2d_list ?g = None" using check_2d_list_None [of ?g] by simp
  have cn: "connect quiet_remote ''Sheet1'' = ([Token_request, Sheet_query], Inr ''sid'')"
    by (simp add: connect_def quiet_remote_def)
  have m: "re_search ''C10'' = Some (''C'', ''10'')" by (simp add: parse_eval)
  have u: "upper ''C'' = ''C''" by (simp add: parse_eval)
  have col: "col_to_order (upper ''C'') = Some 2"
    unfolding u by (rule col_to_order_letter) (simp_all add: nth_A_ZZ_list char_eval)
  have w: "2 + length (hd ?g) - 1 < 702" by simp
  have ok: "\<forall>k rng vals. \<exists>msg. put_reply quiet_remote k rng vals = Response 0 msg"
    by (simp add: quiet_remote_def)
  have b: "(0::int) < 100" by simp
  from batch_write_succeeds [OF f c cn m col w b ok] obtain tr where
    run: "batch_write_multi_data quiet_remote ''Sheet1'' ''C10'' (Rows ?g) 100 = (tr, Inr ())"
    by blast
  from batch_write_plan [OF f b run] obtain sheet_id g1 g2 start_order end_letter where
    p: "connect quiet_remote ''Sheet1'' = ([Token_request, Sheet_query], Inr sheet_id)"
       "re_search ''C10'' = Some (g1, g2)"
       "col_to_order (upper g1) = Some start_order"
       "col_to_order end_letter = Some (start_order + length (hd ?g) - 1)"
       "accepted_puts tr = planned_chunks sheet_id (upper g1) (int_of_digits g2) end_letter
                    (standard_data ?g) (nat 100)"
    unfolding Let_def by blast
  from p(1) cn have s: "sheet_id = ''sid''" by simp
  from p(2) m have g: "g1 = ''C''" "g2 = ''10''" by simp_all
  from p(3) col g have so: "start_order = 2" by simp
  from p(4) so have e: "end_letter = ''D''"
    by (auto simp add: col_to_order_Some nth_A_ZZ_list char_eval)
  have n0: "int_of_digits ''10'' = 10" by (simp add: parse_eval)
  have sd: "standard_data ?g = replicate 250 [CNum 7, CStr '''']"
    by (simp add: standard_data_def sanitize_def)
  have "planned_chunks ''sid'' ''C'' 10 ''D'' (replicate 250 [CNum 7, CStr '''']) 100 =
     [(''sid!C10:D109'', replicate 100 [CNum 7, CStr '''']),
      (''sid!C110:D209'', replicate 100 [CNum 7, CStr '''']),
      (''sid!C210:D259'', replicate 50 [CNum 7, CStr ''''])]"
    by (simp add: planned_chunks_def Let_def upt_conv_Cons str_nat_eval)
  with p(5) s g e u n0 sd run show ?thesis by simp
qed

section \<open>Label rows in the write plan\<close>

lemma quiet_run:
  assumes "format_input input_data = Inr grid" "check_2d_list grid = None"
    and "re_search start_loc = Some (g1, g2)"
    and "col_to_order (upper g1) = Some start_order"
    and "start_order + length (hd grid) - 1 < 702"
    and "0 < batch_size"
  shows "snd (batch_write_multi_data quiet_remote ''Sheet1'' start_loc input_data batch_size) = Inr ()"
    and "accepted_puts (fst (batch_write_multi_data quiet_remote ''Sheet1'' start_loc input_data batch_size))
          = planned_chunks ''sid'' (upper g1) (int_of_digits g2)
              (A_ZZ_list ! (start_order + length (hd grid) - 1)) (standard_data grid) (nat batch_size)"
proof -
  have cn: "connect quiet_remote ''Sheet1'' = ([Token_request, Sheet_query], Inr ''sid'')"
    by (simp add: connect_def quiet_remote_def)
  have ok: "\<forall>k rng vals. \<exists>msg. put_reply quiet_remote k rng vals = Response 0 msg"
    by (simp add: quiet_remote_def)
  from batch_write_succeeds [OF assms(1,2) cn assms(3,4,5,6) ok] obtain tr where
    run: "batch_write_multi_data quiet_remote ''Sheet1'' start_loc input_data batch_size = (tr, Inr ())"
    by blast
  then show "snd (batch_write_multi_data quiet_remote ''Sheet1'' start_loc input_data batch_size) = Inr ()"
    by simp
  from batch_write_accepted [OF run assms(6)] assms(1,3,4) cn run
  show "accepted_puts (fst (batch_write_multi_data quiet_remote ''Sheet1'' start_loc input_data batch_size))
          = planned_chunks ''sid'' (upper g1) (int_of_digits g2)
              (A_ZZ_list ! (start_order + length (hd grid) - 1)) (standard_data grid) (nat batch_size)"
    by auto
qed

text \<open>
  C9, as stated, fails. The grid of a labeled source has the labels as row 0, and the
  slicing runs over all rows of that grid: for the dict \<open>{a: [1, 2]}\<close> and batch size
  1 the label row is the first chunk, sent on its own to \<open>A1\<close>, so the chunks do not
  partition the data rows only.
\<close>

theorem header_sliced_counterexample:
  "to_2d_list (Dict [(CStr ''a'', [CNum 1, CNum 2])]) = Inr [[CStr ''a''], [CNum 1], [CNum 2]] \<and>
   accepted_puts (fst (batch_write_multi_data quiet_remote ''Sheet1'' ''A1''
       (Dict [(CStr ''a'', [CNum 1, CNum 2])]) 1))
     = [(''sid!A1:A1'', [[CStr ''a'']]), (''sid!A2:A2'', [[CNum 1]]), (''sid!A3:A3'', [[CNum 2]])] \<and>
   concat (map snd (accepted_puts (fst (batch_write_multi_data quiet_remote ''Sheet1'' ''A1''
       (Dict [(CStr ''a'', [CNum 1, CNum 2])]) 1))))
     \<noteq> [[CNum 1], [CNum 2]]"
proof -
  let ?d = "Dict [(CStr ''a'', [CNum 1, CNum 2])]"
  let ?g = "[[CStr ''a''], [CNum 1], [CNum 2]]"
  have t: "to_2d_list ?d = Inr ?g" by (simp add: to_2d_list_Dict upt_conv_Cons)
  then have f: "format_input ?d = Inr ?g" by (simp add: format_input_def)
  have c: "check_2d_list ?g = None" using check_2d_list_None [of ?g] by simp
  have m: "re_search ''A1'' = Some (''A'', ''1'')" by (simp add: parse_eval)
  have u: "upper ''A'' = ''A''" by (simp add: parse_eval)
  have col: "col_to_order (upper ''A'') = Some 0"
    unfolding u by (rule col_to_order_letter) (simp_all add: nth_A_ZZ_list char_eval)
  have w: "0 + length (hd ?g) - 1 < 702" by simp
  have b: "(0::int) < 1" by simp
  have sd: "standard_data ?g = ?g" by (simp add: standard_data_def sanitize_def)
  have e: "A_ZZ_list ! (0 + length (hd ?g) - 1) = ''A''" by (simp add: nth_A_ZZ_list char_eval)
  have n0: "int_of_digits ''1'' = 1" by (simp add: parse_eval)
  have "planned_chunks ''sid'' ''A'' 1 ''A'' ?g 1
      = [(''sid!A1:A1'', [[CStr ''a'']]), (''sid!A2:A2'', [[CNum 1]]), (''sid!A3:A3'', [[CNum 2]])]"
    by (simp add: planned_chunks_def Let_def upt_conv_Cons str_nat_eval)
  with quiet_run(2) [OF f c m col w b] u sd e n0
  have "accepted_puts (fst (batch_write_multi_data quiet_remote ''Sheet1'' ''A1'' ?d 1))
     = [(''sid!A1:A1'', [[CStr ''a'']]), (''sid!A2:A2'', [[CNum 1]]), (''sid!A3:A3'', [[CNum 2]])]"
    by simp
  with t show ?thesis by simp
qed

lemma format_input_labeled:
  assumes "\<forall>rows. input_data \<noteq> Rows rows" "format_input input_data = Inr grid"
  shows "\<exists>data. grid =
           (case input_data of Dict items \<Rightarrow> map fst items
            | DataFrame col_list value_list \<Rightarrow> col_list | Rows rows \<Rightarrow> []) # data"
proof (cases input_data)
  case (DataFrame col_list value_list)
  with assms(2) show ?thesis by (auto simp: format_input_def to_2d_list_def)
next
  case (Dict items)
  with assms(2) show ?thesis
    by (auto simp: format_input_def to_2d_list_Dict split: if_splits)
next
  case (Rows rows)
  with assms(1) show ?thesis by simp
qed

text \<open>
  C9, amended. When the input is a labeled source (a DataFrame or a dict) and
  \<open>batch_write_multi_data\<close> returns normally for a batch size \<open>n \<ge> 1\<close>, row 0 of the
  grid is the list of labels and it is sliced with the data rows: the first chunk is the
  label row (after the null-value step) followed by the first \<open>n - 1\<close> data rows, the
  chunks concatenate to the label row followed by all data rows, and every chunk has at
  most \<open>n\<close> rows.
\<close>

theorem labeled_header_in_first_chunk:
  assumes "\<forall>rows. input_data \<noteq> Rows rows"
    and "0 < batch_size"
    and "batch_write_multi_data R sheet_name start_loc input_data batch_size = (tr, Inr ())"
  shows "\<exists>header data.
     format_input input_data = Inr (header # data) \<and>
     header = (case input_data of Dict items \<Rightarrow> map fst items
               | DataFrame col_list value_list \<Rightarrow> col_list | Rows rows \<Rightarrow> []) \<and>
     (let n = nat batch_size; chunks = map snd (accepted_puts tr)
      in chunks \<noteq> [] \<and>
         hd chunks = map sanitize header # take (n - 1) (standard_data data) \<and>
         concat chunks = map sanitize header # standard_data data \<and>
         (\<forall>chunk \<in> set chunks. length chunk \<le> n))"
proof -
  from batch_write_accepted [OF assms(3,2)]
  obtain grid sheet_id g1 g2 E where
    f: "format_input input_data = Inr grid" and c: "check_2d_list grid = None" and
    acc: "accepted_puts tr = planned_chunks sheet_id (upper g1) (int_of_digits g2) E
           (standard_data grid) (nat batch_size)"
    by blast
  define header where "header = (case input_data of Dict items \<Rightarrow> map fst items
               | DataFrame col_list value_list \<Rightarrow> col_list | Rows rows \<Rightarrow> [])"
  from format_input_labeled [OF assms(1) f] obtain data where g: "grid = header # data"
    unfolding header_def by blast
  define n where "n = nat batch_size"
  define std where "std = standard_data grid"
  define chunks where "chunks = map snd (accepted_puts tr)"
  have n: "0 < n" using assms(2) by (simp add: n_def)
  have std: "std = map sanitize header # standard_data data"
    by (simp add: std_def g standard_data_def)
  have ch: "chunks = map (\<lambda>k. take n (drop (k * n) std)) [0..<(length std + n - 1) div n]"
    using snd_planned_chunks [of "(length std + n - 1) div n" sheet_id "upper g1"
        "int_of_digits g2" E std n]
    by (simp add: chunks_def acc length_planned_chunks std_def n_def)
  have cnt: "0 < (length std + n - 1) div n"
  proof -
    have "n \<le> length std + n - 1" unfolding std by simp
    then show ?thesis using n by (simp add: div_greater_zero_iff)
  qed
  then have ne: "chunks \<noteq> []" by (simp add: ch)
  have "hd chunks = take n std" using cnt by (simp add: ch hd_map upt_conv_Cons)
  then have h: "hd chunks = map sanitize header # take (n - 1) (standard_data data)"
    using n by (simp add: std take_Cons')
  have cc: "concat chunks = map sanitize header # standard_data data"
    using concat_planned_chunks [OF n, of sheet_id "upper g1" "int_of_digits g2" E std]
    by (simp add: chunks_def acc std_def [symmetric] n_def [symmetric] std [symmetric])
  have le: "\<forall>chunk \<in> set chunks. length chunk \<le> n" by (auto simp: ch)
  from f g ne h cc le show ?thesis
    unfolding Let_def header_def n_def chunks_def by blast
qed

theorem labeled_header_in_first_chunk_witness:
  "(\<forall>rows. DataFrame [CStr ''x'', CNone] [[CNum 1, CNum 2], [CNum 3, CNaN], [CNum 5, CNum 6]] \<noteq> Rows rows) \<and>
   snd (batch_write_multi_data quiet_remote ''Sheet1'' ''b2''
          (DataFrame [CStr ''x'', CNone] [[CNum 1, CNum 2], [CNum 3, CNaN], [CNum 5, CNum 6]]) 2) = Inr () \<and>
   map snd (accepted_puts (fst (batch_write_multi_data quiet_remote ''Sheet1'' ''b2''
          (DataFrame [CStr ''x'', CNone] [[CNum 1, CNum 2], [CNum 3, CNaN], [CNum 5, CNum 6]]) 2)))
     = [[[CStr ''x'', CStr ''''], [CNum 1, CNum 2]], [[CNum 3, CStr ''''], [CNum 5, CNum 6]]]"
proof -
  let ?d = "DataFrame [CStr ''x'', CNone] [[CNum 1, CNum 2], [CNum 3, CNaN], [CNum 5, CNum 6]]"
  let ?g = "[[CStr ''x'', CNone], [CNum 1, CNum 2], [CNum 3, CNaN], [CNum 5, CNum 6]]"
  let ?run = "batch_write_multi_data quiet_remote ''Sheet1'' ''b2'' ?d 2"
  have l: "\<forall>rows. ?d \<noteq> Rows rows" by simp
  have f: "format_input ?d = Inr ?g" by (simp add: format_input_def to_2d_list_def)
  have c: "check_2d_list ?g = None" using check_2d_list_None [of ?g] by simp
  have m: "re_search ''b2'' = Some (''b'', ''2'')" by (simp add: parse_eval)
  have u: "upper ''b'' = ''B''" by (simp add: parse_eval char_eval)
  have col: "col_to_order (upper ''b'') = Some 1"
    unfolding u by (rule col_to_order_letter) (simp_all add: nth_A_ZZ_list char_eval)
  have w: "1 + length (hd ?g) - 1 < 702" by simp
  have b: "(0::int) < 2" by simp
  note q = quiet_run [OF f c m col w b]
  obtain tr where run: "?run = (tr, Inr ())" using q(1) by (cases ?run) simp
  from labeled_header_in_first_chunk [OF l b run] f
  have "let n = nat 2; chunks = map snd (accepted_puts tr)
      in chunks \<noteq> [] \<and>
         hd chunks = map sanitize [CStr ''x'', CNone]
            # take (n - 1) (standard_data [[CNum 1, CNum 2], [CNum 3, CNaN], [CNum 5, CNum 6]]) \<and>
         concat chunks = map sanitize [CStr ''x'', CNone]
            # standard_data [[CNum 1, CNum 2], [CNum 3, CNaN], [CNum 5, CNum 6]] \<and>
         (\<forall>chunk \<in> set chunks. length chunk \<le> n)"
    by auto
  then have h: "hd (map snd (accepted_puts tr)) = [[CStr ''x'', CStr ''''], [CNum 1, CNum 2]]"
    and cc: "concat (map snd (accepted_puts tr))
       = [[CStr ''x'', CStr ''''], [CNum 1, CNum 2], [CNum 3, CStr ''''], [CNum 5, CNum 6]]"
    and ne: "map snd (accepted_puts tr) \<noteq> []"
    by (simp_all add: Let_def standard_data_def sanitize_def)
  from ne obtain c1 rest where cr: "map snd (accepted_puts tr) = c1 # rest"
    by (cases "map snd (accepted_puts tr)") auto
  with h have c1: "c1 = [[CStr ''x'', CStr ''''], [CNum 1, CNum 2]]" by simp
  have len: "length (accepted_puts tr) = 2"
    using q(2) run by (simp add: length_planned_chunks standard_data_def)
  with cr obtain c2 where r2: "rest = [c2]"
    by (cases rest) (auto simp: length_Suc_conv dest!: arg_cong [where f = length])
  with cc cr c1 have "c2 = [[CNum 3, CStr ''''], [CNum 5, CNum 6]]" by simp
  with cr c1 r2 l q(1) run show ?thesis by simp
qed

section \<open>Null values before transmission\<close>

lemma put_attempts_puts:
  "Put rng' vals' reply \<in> set (fst (put_attempts R batch_size rng vals atts tr)) \<Longrightarrow>
   Put rng' vals' reply \<in> set tr \<or> (rng' = rng \<and> vals' = vals)"
proof (induction atts arbitrary: tr)
  case Nil
  then show ?case by simp
next
  case (Cons attempt rest)
  let ?r = "put_reply R (puts_issued tr) rng vals"
  show ?case
  proof (cases ?r)
    case No_response
    with Cons.prems show ?thesis by (auto simp: Let_def)
  next
    case (Response code msg)
    show ?thesis
    proof (cases "code \<noteq> 0 \<and> code \<noteq> 90227 \<and> attempt < max_attempts - 1")
      case True
      with Cons.prems Response have
        "Put rng' vals' reply \<in> set (fst (put_attempts R batch_size rng vals rest
            ((tr @ [Put rng vals ?r]) @ [Sleep (10 * (attempt + 1))])))"
        by (simp add: Let_def)
      from Cons.IH [OF this] show ?thesis by auto
    next
      case False
      with Cons.prems Response show ?thesis by (auto simp: Let_def split: if_splits)
    qed
  qed
qed

lemma write_batches_puts:
  "Put rng vals reply \<in> set (fst (write_batches R batch_size sheet_id start_letter start_number
       standard idxs tr)) \<Longrightarrow>
   Put rng vals reply \<in> set tr \<or>
   (\<exists>i \<in> set idxs. vals = py_slice standard i (min (i + batch_size) (int (length standard))) \<and>
      (\<exists>r. complete_data_range (start_letter @ str_int (int start_number + i)) vals = Inr r \<and>
           rng = sheet_id @ ''!'' @ r))"
proof (induction idxs arbitrary: tr)
  case Nil
  then show ?case by simp
next
  case (Cons i rest)
  let ?chunk = "py_slice standard i (min (i + batch_size) (int (length standard)))"
  show ?case
  proof (cases "complete_data_range (start_letter @ str_int (int start_number + i)) ?chunk")
    case (Inl e)
    with Cons.prems show ?thesis by (simp add: Let_def)
  next
    case (Inr r)
    obtain tr1 res where
      p: "put_attempts R batch_size (sheet_id @ ''!'' @ r) ?chunk [0..<max_attempts] tr = (tr1, res)"
      by (cases "put_attempts R batch_size (sheet_id @ ''!'' @ r) ?chunk [0..<max_attempts] tr")
    have in1: "Put rng vals reply \<in> set tr \<or> (rng = sheet_id @ ''!'' @ r \<and> vals = ?chunk)"
      if "Put rng vals reply \<in> set tr1"
      using put_attempts_puts [of rng vals reply R batch_size "sheet_id @ ''!'' @ r" ?chunk
          "[0..<max_attempts]" tr] p that by simp
    show ?thesis
    proof (cases res)
      case (Inl e)
      with Cons.prems Inr p have "Put rng vals reply \<in> set tr1" by (simp add: Let_def)
      from in1 [OF this] Inr show ?thesis by auto
    next
      case r2: (Inr u)
      with Cons.prems Inr p have
        "Put rng vals reply \<in> set (fst (write_batches R batch_size sheet_id start_letter
           start_number standard rest tr1))"
        by (simp add: Let_def)
      from Cons.IH [OF this] in1 Inr show ?thesis by auto
    qed
  qed
qed

lemma connect_no_put: "connect R sheet_name = (tr, res) \<Longrightarrow> Put rng vals reply \<notin> set tr"
  by (auto simp: connect_def split: option.splits)

lemma standard_data_no_null: "\<forall>row \<in> set (standard_data grid). \<forall>c \<in> set row. \<not> isna c"
  by (auto simp: standard_data_def sanitize_def)

lemma set_py_slice: "set (py_slice xs a b) \<subseteq> set xs"
  unfolding py_slice_def Let_def
  using set_take_subset set_drop_subset by (metis subset_trans)

lemma write_multi_data_puts:
  assumes "Put rng vals reply \<in> set (fst (write_multi_data R sheet_name start_loc input_data))"
  shows "\<exists>formatted sheet_id data_range.
     format_input input_data = Inr formatted \<and> vals = standard_data formatted \<and>
     complete_data_range start_loc vals = Inr data_range \<and> rng = sheet_id @ ''!'' @ data_range"
proof -
  from assms obtain formatted where f: "format_input input_data = Inr formatted"
    by (cases "format_input input_data") (simp_all add: write_multi_data_def)
  with assms have c: "check_2d_list formatted = None"
    by (cases "check_2d_list formatted") (simp_all add: write_multi_data_def)
  obtain tr0 res where cn: "connect R sheet_name = (tr0, res)" by (cases "connect R sheet_name")
  note np = connect_no_put [OF cn, of rng vals reply]
  from assms f c cn np obtain sheet_id where s: "res = Inr sheet_id"
    by (cases res) (simp_all add: write_multi_data_def Let_def)
  from assms f c cn np s obtain data_range where
    d: "complete_data_range start_loc (standard_data formatted) = Inr data_range"
    by (cases "complete_data_range start_loc (standard_data formatted)")
      (simp_all add: write_multi_data_def Let_def)
  from assms f c cn np s d have "rng = sheet_id @ ''!'' @ data_range \<and> vals = standard_data formatted"
    by (auto simp: write_multi_data_def Let_def split: response.splits if_splits)
  with f d show ?thesis by blast
qed

lemma batch_write_multi_data_puts:
  assumes "Put rng vals reply \<in> set (fst (batch_write_multi_data R sheet_name start_loc input_data batch_size))"
  shows "\<exists>formatted sheet_id start i j data_range.
     format_input input_data = Inr formatted \<and> vals = py_slice (standard_data formatted) i j \<and>
     complete_data_range start vals = Inr data_range \<and> rng = sheet_id @ ''!'' @ data_range"
proof -
  from assms obtain formatted where f: "format_input input_data = Inr formatted"
    by (cases "format_input input_data") (simp_all add: batch_write_multi_data_def)
  with assms have c: "check_2d_list formatted = None"
    by (cases "check_2d_list formatted") (simp_all add: batch_write_multi_data_def)
  obtain tr0 res where cn: "connect R sheet_name = (tr0, res)" by (cases "connect R sheet_name")
  note np = connect_no_put [OF cn, of rng vals reply]
  from assms f c cn np obtain sheet_id where s: "res = Inr sheet_id"
    by (cases res) (simp_all add: batch_write_multi_data_def Let_def)
  from assms f c cn np s obtain g1 g2 where m: "re_search start_loc = Some (g1, g2)"
    by (cases "re_search start_loc") (auto simp: batch_write_multi_data_def Let_def)
  from assms f c cn np s m have b: "batch_size \<noteq> 0"
    by (auto simp: batch_write_multi_data_def Let_def batch_num_def split: if_splits)
  let ?w = "write_batches R batch_size sheet_id (upper g1) (int_of_digits g2) (standard_data formatted)
       (py_range 0 (int (length (standard_data formatted))) batch_size) tr0"
  from assms f c cn s m b have "Put rng vals reply \<in> set (fst ?w)"
    by (cases ?w) (auto simp: batch_write_multi_data_def Let_def batch_num_def split: sum.splits)
  from write_batches_puts [OF this] np f show ?thesis by blast
qed

text \<open>
  C6. \<open>sanitize\<close> turns a null-like cell into the empty text and leaves every other
  cell as it is. In every run of \<open>write_multi_data\<close>, for every input and remote, a
  \<open>PUT\<close> in the trace carries the whole grid with \<open>sanitize\<close> applied to every cell,
  and its range is the one \<open>complete_data_range\<close> computes from that sanitized grid.
  In every run of \<open>batch_write_multi_data\<close> a \<open>PUT\<close> in the trace carries a slice of
  the sanitized grid and the range computed from that slice. In both, no cell that is
  sent is null-like. (The null-value step is a pure computation placed before the first
  call; the trace shows its effect on every value sent.)
\<close>

theorem sanitized_before_transmission:
  "sanitize c = (if isna c then CStr '''' else c) \<and>
   (Put rng vals reply \<in> set (fst (write_multi_data R sheet_name start_loc input_data)) \<longrightarrow>
      (\<exists>formatted sheet_id data_range.
         format_input input_data = Inr formatted \<and> vals = map (map sanitize) formatted \<and>
         (\<forall>row \<in> set vals. \<forall>c \<in> set row. \<not> isna c) \<and>
         complete_data_range start_loc vals = Inr data_range \<and>
         rng = sheet_id @ ''!'' @ data_range)) \<and>
   (Put rng vals reply \<in> set (fst (batch_write_multi_data R sheet_name start_loc input_data batch_size)) \<longrightarrow>
      (\<exists>formatted sheet_id start i j data_range.
         format_input input_data = Inr formatted \<and>
         vals = py_slice (map (map sanitize) formatted) i j \<and>
         (\<forall>row \<in> set vals. \<forall>c \<in> set row. \<not> isna c) \<and>
         complete_data_range start vals = Inr data_range \<and>
         rng = sheet_id @ ''!'' @ data_range))"
proof (intro conjI impI)
  show "sanitize c = (if isna c then CStr '''' else c)" by (simp add: sanitize_def)
next
  assume "Put rng vals reply \<in> set (fst (write_multi_data R sheet_name start_loc input_data))"
  from write_multi_data_puts [OF this] obtain formatted sheet_id data_range where
    h: "format_input input_data = Inr formatted" "vals = standard_data formatted"
       "complete_data_range start_loc vals = Inr data_range" "rng = sheet_id @ ''!'' @ data_range"
    by blast
  from h(2) have "\<forall>row \<in> set vals. \<forall>c \<in> set row. \<not> isna c"
    using standard_data_no_null by blast
  with h show "\<exists>formatted sheet_id data_range.
         format_input input_data = Inr formatted \<and> vals = map (map sanitize) formatted \<and>
         (\<forall>row \<in> set vals. \<forall>c \<in> set row. \<not> isna c) \<and>
         complete_data_range start_loc vals = Inr data_range \<and>
         rng = sheet_id @ ''!'' @ data_range"
    unfolding standard_data_def by blast
next
  assume "Put rng vals reply \<in> set (fst (batch_write_multi_data R sheet_name start_loc input_data batch_size))"
  from batch_write_multi_data_puts [OF this] obtain formatted sheet_id start i j data_range where
    h: "format_input input_data = Inr formatted" "vals = py_slice (standard_data formatted) i j"
       "complete_data_range start vals = Inr data_range" "rng = sheet_id @ ''!'' @ data_range"
    by blast
  from h(2) have "\<forall>row \<in> set vals. \<forall>c \<in> set row. \<not> isna c"
    using standard_data_no_null [of formatted] set_py_slice [of "standard_data formatted" i j]
    by blast
  with h show "\<exists>formatted sheet_id start i j data_range.
         format_input input_data = Inr formatted \<and>
         vals = py_slice (map (map sanitize) formatted) i j \<and>
         (\<forall>row \<in> set vals. \<forall>c \<in> set row. \<not> isna c) \<and>
         complete_data_range start vals = Inr data_range \<and>
         rng = sheet_id @ ''!'' @ data_range"
    unfolding standard_data_def by blast
qed

lemma accepted_puts_mem:
  "(rng, vals) \<in> set (accepted_puts tr) \<Longrightarrow> \<exists>msg. Put rng vals (Response 0 msg) \<in> set tr"
proof (induction tr)
  case Nil
  then show ?case by simp
next
  case (Cons ev tr)
  show ?case
  proof (cases "(rng, vals) \<in> set (accepted_put ev)")
    case True
    then obtain msg where "ev = Put rng vals (Response 0 msg)"
      by (cases ev rule: accepted_put.cases) (auto split: if_splits)
    then show ?thesis by auto
  next
    case False
    with Cons show ?thesis by auto
  qed
qed

theorem sanitized_before_transmission_witness:
  "fst (write_multi_data quiet_remote ''Sheet1'' ''A1'' (Rows [[CStr ''x'', CNone], [CNum 1, CNaN]]))
     = [Token_request, Sheet_query,
        Put ''sid!A1:B2'' [[CStr ''x'', CStr ''''], [CNum 1, CStr '''']] (Response 0 ''success'')] \<and>
   map (map sanitize) [[CStr ''x'', CNone], [CNum 1, CNaN]]
     = [[CStr ''x'', CStr ''''], [CNum 1, CStr '''']] \<and>
   accepted_puts (fst (batch_write_multi_data quiet_remote ''Sheet1'' ''A1''
       (Rows [[CStr ''x'', CNone], [CNum 1, CNaN]]) 1))
     = [(''sid!A1:B1'', [[CStr ''x'', CStr '''']]), (''sid!A2:B2'', [[CNum 1, CStr '''']])] \<and>
   \<not> isna (CNum 1) \<and> \<not> isna (CStr '''')"
proof -
  let ?g = "[[CStr ''x'', CNone], [CNum 1, CNaN]]"
  let ?s = "[[CStr ''x'', CStr ''''], [CNum 1, CStr '''']]"
  let ?w = "write_multi_data quiet_remote ''Sheet1'' ''A1'' (Rows ?g)"
  let ?b = "batch_write_multi_data quiet_remote ''Sheet1'' ''A1'' (Rows ?g) 1"
  have f: "format_input (Rows ?g) = Inr ?g" by (simp add: format_input_def)
  have c: "check_2d_list ?g = None" using check_2d_list_None [of ?g] by simp
  have cs: "check_2d_list ?s = None" using check_2d_list_None [of ?s] by simp
  have sd: "standard_data ?g = ?s" by (simp add: standard_data_def sanitize_def)
  have cn: "connect quiet_remote ''Sheet1'' = ([Token_request, Sheet_query], Inr ''sid'')"
    by (simp add: connect_def quiet_remote_def)
  have m: "re_search ''A1'' = Some (''A'', ''1'')" by (simp add: parse_eval)
  have u: "upper ''A'' = ''A''" by (simp add: parse_eval)
  have col: "col_to_order (upper ''A'') = Some 0"
    unfolding u by (rule col_to_order_letter) (simp_all add: nth_A_ZZ_list char_eval)
  have n0: "int_of_digits ''1'' = 1" by (simp add: parse_eval)
  have r: "complete_data_range ''A1'' ?s = Inr ''A1:B2''"
    using complete_data_range_checked [OF m cs col]
    by (simp add: Let_def u n0 nth_A_ZZ_list char_eval str_nat_eval)
  have pr: "put_reply quiet_remote k rng vals = Response 0 ''success''" for k rng vals
    by (simp add: quiet_remote_def)
  have tr: "fst ?w = [Token_request, Sheet_query, Put ''sid!A1:B2'' ?s (Response 0 ''success'')]"
    by (simp add: write_multi_data_def f c sd cn r Let_def pr)
  then have mem: "Put ''sid!A1:B2'' ?s (Response 0 ''success'') \<in> set (fst ?w)" by simp
  from sanitized_before_transmission [of CNone "''sid!A1:B2''" ?s "Response 0 ''success''"
      quiet_remote "''Sheet1''" "''A1''" "Rows ?g" 1, THEN conjunct2, THEN conjunct1, THEN mp, OF mem]
  obtain formatted where fm: "format_input (Rows ?g) = Inr formatted"
    and sm: "?s = map (map sanitize) formatted"
    by (elim exE conjE) (rule that; assumption)
  from fm f have fg: "formatted = ?g" by simp
  from sm [unfolded fg] have s1: "map (map sanitize) ?g = ?s" by (rule sym)
  have w: "0 + length (hd ?g) - 1 < 702" by simp
  have b: "(0::int) < 1" by simp
  have e: "A_ZZ_list ! (0 + length (hd ?g) - 1) = ''B''" by (simp add: nth_A_ZZ_list char_eval)
  have "planned_chunks ''sid'' ''A'' 1 ''B'' ?s 1
      = [(''sid!A1:B1'', [[CStr ''x'', CStr '''']]), (''sid!A2:B2'', [[CNum 1, CStr '''']])]"
    by (simp add: planned_chunks_def Let_def upt_conv_Cons str_nat_eval)
  with quiet_run(2) [OF f c m col w b] u sd e n0
  have acc: "accepted_puts (fst ?b)
     = [(''sid!A1:B1'', [[CStr ''x'', CStr '''']]), (''sid!A2:B2'', [[CNum 1, CStr '''']])]"
    by simp
  then have "(''sid!A2:B2'', [[CNum 1, CStr '''']]) \<in> set (accepted_puts (fst ?b))" by simp
  from accepted_puts_mem [OF this] obtain msg where
    mem2: "Put ''sid!A2:B2'' [[CNum 1, CStr '''']] (Response 0 msg) \<in> set (fst ?b)" by blast
  from sanitized_before_transmission [of CNone "''sid!A2:B2''" "[[CNum 1, CStr '''']]" "Response 0 msg"
      quiet_remote "''Sheet1''" "''A1''" "Rows ?g" 1, THEN conjunct2, THEN conjunct2, THEN mp, OF mem2]
  have s2: "\<forall>row \<in> set [[CNum 1, CStr '''']]. \<forall>c \<in> set row. \<not> isna c" by blast
  then have s3: "\<not> isna (CNum 1)" "\<not> isna (CStr '''')" by simp_all
  from tr s1 acc s3 show ?thesis by (intro conjI)
qed

section \<open>The read plan\<close>

lemma gets_issued_append [simp]: "gets_issued (tr @ tr') = gets_issued tr + gets_issued tr'"
  by (simp add: gets_issued_def)

lemma gets_issued_simps [simp]:
  "gets_issued [] = 0"
  "gets_issued (Get url r # tr) = Suc (gets_issued tr)"
  "gets_issued (Sleep t # tr) = gets_issued tr"
  "gets_issued (Token_request # tr) = gets_issued tr"
  "gets_issued (Sheet_query # tr) = gets_issued tr"
  by (simp_all add: gets_issued_def)

lemma successful_gets_append [simp]:
  "successful_gets (tr @ tr') = successful_gets tr @ successful_gets tr'"
  by (simp add: successful_gets_def)

lemma successful_gets_simps [simp]:
  "successful_gets [] = []"
  "successful_gets (ev # tr) = successful_get ev @ successful_gets tr"
  by (simp_all add: successful_gets_def)

lemma connect_gets:
  "connect R sheet_name = (tr, res) \<Longrightarrow> gets_issued tr = 0 \<and> successful_gets tr = []"
  by (auto simp: connect_def split: option.splits)

lemma read_windows_pos:
  assumes "0 < batch_size"
  shows "read_windows row_id_start row_id_end batch_size =
     map (\<lambda>k. (row_id_start + int k * batch_size,
                min (row_id_start + int k * batch_size + batch_size - 1) row_id_end))
       [0..<nat ((row_id_end - row_id_start + batch_size) div batch_size)]"
proof -
  have eq: "row_id_end + 1 - row_id_start + batch_size - 1 = row_id_end - row_id_start + batch_size"
    by simp
  show ?thesis
    unfolding read_windows_def py_range_pos [OF assms] eq by (simp only: map_map comp_def)
qed

lemma window_count:
  assumes "0 < (b::int)" "s \<le> e"
  defines "cnt \<equiv> nat ((e - s + b) div b)"
  shows "0 < cnt" and "(int cnt - 1) * b < e - s + 1" and "e - s + 1 \<le> int cnt * b"
proof -
  define q where "q = (e - s + b) div b"
  define r where "r = (e - s + b) mod b"
  have q: "0 < q"
    using assms(1,2) unfolding q_def by (simp add: pos_imp_zdiv_pos_iff)
  then show "0 < cnt" by (simp add: cnt_def q_def)
  from q have c: "int cnt = q" by (simp add: cnt_def q_def)
  have m: "q * b + r = e - s + b" unfolding q_def r_def by (rule div_mult_mod_eq)
  have r: "0 \<le> r" "r < b"
    unfolding r_def using assms(1) by (rule pos_mod_sign, rule pos_mod_bound)
  have "(q - 1) * b = q * b - b" by (simp add: algebra_simps)
  with m r show "(int cnt - 1) * b < e - s + 1" unfolding c by linarith
  from m r show "e - s + 1 \<le> int cnt * b" unfolding c by linarith
qed

lemma get_attempts_last:
  assumes "k < max_retries"
  shows "get_attempts R url [k..<max_retries] tr data_all =
     (let reply = get_reply R (gets_issued tr) url;
          tr1 = tr @ [Get url reply]
      in case reply of
           Some data_collected \<Rightarrow> (tr1, Inr (data_all @ data_collected))
         | None \<Rightarrow>
             if k < max_retries - 1
             then get_attempts R url [Suc k..<max_retries] (tr1 @ [Sleep (10 * (k + 1))]) data_all
             else (tr1, Inl Transport_error))"
proof -
  from assms have "[k..<max_retries] = k # [Suc k..<max_retries]" by (simp add: upt_conv_Cons)
  then show ?thesis by simp
qed

lemma get_attempts_success:
  assumes "a < max_retries"
    and "get_attempts R url [a..<max_retries] tr data_all = (tr', Inr d)"
  shows "\<exists>rows. successful_gets tr' = successful_gets tr @ [(url, rows)] \<and> d = data_all @ rows"
using assms proof (induction "max_retries - a" arbitrary: a tr)
  case 0
  then show ?case by simp
next
  case (Suc n)
  let ?reply = "get_reply R (gets_issued tr) url"
  note unf = get_attempts_last [OF Suc.prems(1), of R url tr data_all]
  show ?case
  proof (cases ?reply)
    case (Some rows)
    with unf Suc.prems(2) show ?thesis by (auto simp: Let_def)
  next
    case None
    with unf Suc.prems(2) have c: "a < max_retries - 1"
      by (auto simp: Let_def split: if_splits)
    let ?tr = "(tr @ [Get url ?reply]) @ [Sleep (10 * (a + 1))]"
    from unf Suc.prems(2) None c
    have run: "get_attempts R url [Suc a..<max_retries] ?tr data_all = (tr', Inr d)"
      by (simp add: Let_def)
    from Suc.hyps(2) c have "n = max_retries - Suc a" "Suc a < max_retries" by simp_all
    from Suc.hyps(1) [OF this run] None show ?thesis by simp
  qed
qed

lemma get_attempts_extends:
  "\<exists>rest. fst (get_attempts R url atts tr data_all) = tr @ rest"
proof (induction atts arbitrary: tr)
  case Nil
  then show ?case by simp
next
  case (Cons attempt rest)
  let ?reply = "get_reply R (gets_issued tr) url"
  show ?case
  proof (cases "?reply = None \<and> attempt < max_retries - 1")
    case True
    with Cons.IH [of "(tr @ [Get url ?reply]) @ [Sleep (10 * (attempt + 1))]"]
    show ?thesis by (auto simp: Let_def)
  next
    case False
    then show ?thesis by (auto simp: Let_def split: option.splits)
  qed
qed

lemma read_batches_extends:
  "\<exists>rest. fst (read_batches R urls tr data_all) = tr @ rest"
proof (induction urls arbitrary: tr data_all)
  case Nil
  then show ?case by simp
next
  case (Cons url rest)
  obtain tr1 res where g: "get_attempts R url [0..<max_retries] tr data_all = (tr1, res)"
    by (cases "get_attempts R url [0..<max_retries] tr data_all")
  from get_attempts_extends [of R url "[0..<max_retries]" tr data_all] g
  obtain r1 where r1: "tr1 = tr @ r1" by auto
  show ?case
  proof (cases res)
    case (Inl e)
    with g r1 show ?thesis by simp
  next
    case (Inr d)
    from Cons.IH [of tr1 d] obtain r2 where "fst (read_batches R rest tr1 d) = tr1 @ r2" by blast
    with g r1 Inr show ?thesis by simp
  qed
qed

lemma read_batches_success:
  assumes "read_batches R urls tr data_all = (tr', Inr d)"
  shows "\<exists>rowss. length rowss = length urls \<and>
           successful_gets tr' = successful_gets tr @ zip urls rowss \<and>
           d = data_all @ concat rowss"
using assms proof (induction urls arbitrary: tr data_all)
  case Nil
  then show ?case by simp
next
  case (Cons url rest)
  obtain tr1 res where g: "get_attempts R url [0..<max_retries] tr data_all = (tr1, res)"
    by (cases "get_attempts R url [0..<max_retries] tr data_all")
  with Cons.prems obtain d1 where res: "res = Inr d1" by (cases res) simp_all
  with Cons.prems g have rec: "read_batches R rest tr1 d1 = (tr', Inr d)" by simp
  have "0 < max_retries" by (simp add: max_retries_def)
  from get_attempts_success [OF this] g res obtain rows where
    r: "successful_gets tr1 = successful_gets tr @ [(url, rows)]" "d1 = data_all @ rows"
    by blast
  from Cons.IH [OF rec] obtain rowss where
    rs: "length rowss = length rest" "successful_gets tr' = successful_gets tr1 @ zip rest rowss"
      "d = d1 @ concat rowss"
    by blast
  have "length (rows # rowss) = length (url # rest) \<and>
        successful_gets tr' = successful_gets tr @ zip (url # rest) (rows # rowss) \<and>
        d = data_all @ concat (rows # rowss)"
    using r rs by simp
  then show ?case by blast
qed

lemma load_header_result:
  "load_header R url tr =
     (tr @ [Get url (get_reply R (gets_issued tr) url)],
      case get_reply R (gets_issued tr) url of
        None \<Rightarrow> Inl Transport_error | Some head_collected \<Rightarrow> Inr head_collected)"
  by (simp add: load_header_def Let_def split: option.splits)

lemma load_data_all_success:
  assumes "load_data_all R sheet_name row_id_start row_id_end col_id_start col_id_end batch_size
             = (tr, Inr data_all)"
  shows "\<exists>sheet_id.
     connect R sheet_name = ([Token_request, Sheet_query], Inr sheet_id) \<and> batch_size \<noteq> 0 \<and>
     map fst (successful_gets tr) =
       (if 1 < row_id_start then [head_section_url sheet_id col_id_start col_id_end] else [])
       @ url_list sheet_id col_id_start col_id_end (read_windows row_id_start row_id_end batch_size) \<and>
     data_all = concat (map snd (successful_gets tr))"
proof -
  obtain tr0 res where cn: "connect R sheet_name = (tr0, res)" by (cases "connect R sheet_name")
  with assms obtain sheet_id where s: "res = Inr sheet_id"
    by (cases res) (simp_all add: load_data_all_def)
  from cn s have tr0: "tr0 = [Token_request, Sheet_query]" by (simp add: connect_Inr)
  from assms cn s have b: "batch_size \<noteq> 0"
    by (auto simp: load_data_all_def split: if_splits)
  define urls where "urls = url_list sheet_id col_id_start col_id_end
      (read_windows row_id_start row_id_end batch_size)"
  define head where "head = head_section_url sheet_id col_id_start col_id_end"
  have "\<exists>tr1 head_collected.
      read_batches R urls tr1 head_collected = (tr, Inr data_all) \<and>
      successful_gets tr1 = (if 1 < row_id_start then [(head, head_collected)] else []) \<and>
      (\<not> 1 < row_id_start \<longrightarrow> head_collected = [])"
  proof (cases "1 < row_id_start")
    case True
    let ?reply = "get_reply R (gets_issued tr0) head"
    let ?tr1 = "tr0 @ [Get head ?reply]"
    from assms cn s b True obtain head_collected where hc: "?reply = Some head_collected"
      by (cases ?reply)
        (simp_all add: load_data_all_def Let_def load_header_result head_def)
    obtain tr2 rres where rb: "read_batches R urls ?tr1 head_collected = (tr2, rres)"
      by (cases "read_batches R urls ?tr1 head_collected")
    from assms cn s b True hc rb have "tr2 = tr \<and> rres = Inr data_all"
      by (cases rres)
        (simp_all add: load_data_all_def Let_def load_header_result head_def urls_def)
    with rb have "read_batches R urls ?tr1 head_collected = (tr, Inr data_all)" by simp
    moreover have "successful_gets ?tr1 = [(head, head_collected)]"
      using hc connect_gets [OF cn] by simp
    ultimately show ?thesis using True
      by (intro exI [of _ ?tr1] exI [of _ head_collected]) simp
  next
    case False
    obtain tr2 rres where rb: "read_batches R urls tr0 [] = (tr2, rres)"
      by (cases "read_batches R urls tr0 []")
    from assms cn s b False rb have "tr2 = tr \<and> rres = Inr data_all"
      by (cases rres) (simp_all add: load_data_all_def Let_def urls_def)
    with rb have "read_batches R urls tr0 [] = (tr, Inr data_all)" by simp
    then show ?thesis using False connect_gets [OF cn]
      by (intro exI [of _ tr0] exI [of _ "[]"]) simp
  qed
  then obtain tr1 head_collected where
    rb: "read_batches R urls tr1 head_collected = (tr, Inr data_all)" and
    sg1: "successful_gets tr1 = (if 1 < row_id_start then [(head, head_collected)] else [])" and
    hc0: "\<not> 1 < row_id_start \<Longrightarrow> head_collected = []"
    by blast
  from read_batches_success [OF rb] obtain rowss where
    rs: "length rowss = length urls" "successful_gets tr = successful_gets tr1 @ zip urls rowss"
      "data_all = head_collected @ concat rowss"
    by blast
  have "map fst (successful_gets tr) = (if 1 < row_id_start then [head] else []) @ urls"
    using rs(1,2) sg1 by simp
  moreover have "data_all = concat (map snd (successful_gets tr))"
    using rs sg1 hc0 by auto
  ultimately show ?thesis using cn s tr0 b unfolding urls_def head_def by blast
qed

lemma load_data_all_header:
  fixes R sheet_name row_id_start row_id_end col_id_start col_id_end batch_size sheet_id
  defines "head \<equiv> head_section_url sheet_id col_id_start col_id_end"
  defines "run \<equiv> load_data_all R sheet_name row_id_start row_id_end col_id_start col_id_end batch_size"
  assumes cn: "connect R sheet_name = (tr0, Inr sheet_id)" and b: "batch_size \<noteq> 0"
    and s1: "1 < row_id_start"
  shows "\<exists>rest. fst run = tr0 @ Get head (get_reply R 0 head) # rest"
    and "get_reply R 0 head = None \<Longrightarrow>
         run = (tr0 @ [Get head None], Inl (Failed ''load_sheet_data_to_df'' Transport_error))"
proof -
  define urls where "urls = url_list sheet_id col_id_start col_id_end
      (read_windows row_id_start row_id_end batch_size)"
  have g0: "gets_issued tr0 = 0" using connect_gets [OF cn] by simp
  let ?tr1 = "tr0 @ [Get head (get_reply R 0 head)]"
  show "get_reply R 0 head = None \<Longrightarrow>
         run = (tr0 @ [Get head None], Inl (Failed ''load_sheet_data_to_df'' Transport_error))"
    using cn b s1 g0
    by (simp add: run_def load_data_all_def Let_def load_header_result head_def)
  show "\<exists>rest. fst run = tr0 @ Get head (get_reply R 0 head) # rest"
  proof (cases "get_reply R 0 head")
    case None
    with cn b s1 g0 show ?thesis
      by (simp add: run_def load_data_all_def Let_def load_header_result head_def)
  next
    case (Some head_collected)
    from read_batches_extends [of R urls ?tr1 head_collected] obtain rest where
      r: "fst (read_batches R urls ?tr1 head_collected) = ?tr1 @ rest" by blast
    obtain tr2 res where rb: "read_batches R urls ?tr1 head_collected = (tr2, res)"
      by (cases "read_batches R urls ?tr1 head_collected")
    with r have "tr2 = tr0 @ Get head (get_reply R 0 head) # rest" by simp
    moreover have "fst run = tr2"
      using cn b s1 g0 Some rb
      by (cases res)
        (simp_all add: run_def load_data_all_def Let_def load_header_result
          head_def [symmetric] urls_def [symmetric])
    ultimately show ?thesis by blast
  qed
qed

lemma read_windows_shape:
  assumes "row_id_start \<le> row_id_end" "0 < batch_size"
  defines "windows \<equiv> read_windows row_id_start row_id_end batch_size"
  defines "cnt \<equiv> length windows"
  shows "windows = map (\<lambda>k. (row_id_start + int k * batch_size,
                   min (row_id_start + int k * batch_size + batch_size - 1) row_id_end)) [0..<cnt]"
    and "0 < cnt"
    and "(int cnt - 1) * batch_size < row_id_end - row_id_start + 1"
    and "row_id_end - row_id_start + 1 \<le> int cnt * batch_size"
    and "fst (hd windows) = row_id_start"
    and "snd (last windows) = row_id_end"
    and "\<forall>k. Suc k < cnt \<longrightarrow> fst (windows ! Suc k) = snd (windows ! k) + 1"
proof -
  let ?f = "\<lambda>k. (row_id_start + int k * batch_size,
                   min (row_id_start + int k * batch_size + batch_size - 1) row_id_end)"
  let ?n = "nat ((row_id_end - row_id_start + batch_size) div batch_size)"
  have w: "windows = map ?f [0..<?n]"
    unfolding windows_def by (rule read_windows_pos [OF assms(2)])
  then have c: "cnt = ?n" by (simp add: cnt_def)
  from w c show w': "windows = map ?f [0..<cnt]" by simp
  note wc = window_count [OF assms(2,1), folded c]
  from wc show pos: "0 < cnt" and lo: "(int cnt - 1) * batch_size < row_id_end - row_id_start + 1"
    and hi: "row_id_end - row_id_start + 1 \<le> int cnt * batch_size"
    by simp_all
  from pos have "windows ! 0 = ?f 0" by (subst w') simp
  moreover from pos have "hd windows = windows ! 0" by (simp add: hd_conv_nth cnt_def)
  ultimately show "fst (hd windows) = row_id_start" by simp
  have nth: "windows ! k = ?f k" if "k < cnt" for k
    using that by (subst w') simp
  have "last windows = windows ! (cnt - 1)"
    using pos by (simp add: last_conv_nth cnt_def)
  also have "\<dots> = ?f (cnt - 1)" using pos by (simp add: nth)
  finally have l: "last windows = ?f (cnt - 1)" .
  have "int (cnt - 1) * batch_size = int cnt * batch_size - batch_size"
    using pos by (simp add: of_nat_diff algebra_simps)
  with hi have "row_id_end \<le> row_id_start + int (cnt - 1) * batch_size + batch_size - 1"
    by linarith
  with l show "snd (last windows) = row_id_end" by simp
  show "\<forall>k. Suc k < cnt \<longrightarrow> fst (windows ! Suc k) = snd (windows ! k) + 1"
  proof (intro allI impI)
    fix k assume k: "Suc k < cnt"
    then have "int (Suc k) \<le> int cnt - 1" by simp
    then have "int (Suc k) * batch_size \<le> (int cnt - 1) * batch_size"
      using assms(2) by (simp only: mult_right_mono)
    with lo have "int (Suc k) * batch_size < row_id_end - row_id_start + 1" by linarith
    moreover have "int (Suc k) * batch_size = int k * batch_size + batch_size"
      by (simp add: algebra_simps)
    ultimately have "row_id_start + int k * batch_size + batch_size - 1 \<le> row_id_end"
      by linarith
    then have "snd (windows ! k) = row_id_start + int k * batch_size + batch_size - 1"
      using k by (simp add: nth)
    moreover have "fst (windows ! Suc k) = row_id_start + int k * batch_size + batch_size"
      using k by (simp add: nth algebra_simps)
    ultimately show "fst (windows ! Suc k) = snd (windows ! k) + 1" by simp
  qed
qed

text \<open>
  C5. For \<open>row_id_start \<le> row_id_end\<close> and a batch size of at least 1, the windows
  of the reading loop are \<open>[start + k * size, min (start + k * size + size - 1) end]\<close>
  for \<open>k\<close> below their number \<open>cnt\<close>, which is the least number with
  \<open>end - start + 1 \<le> cnt * size\<close>; the first window starts at \<open>row_id_start\<close>, each
  next one starts one row after the one before ends, the last ends at \<open>row_id_end\<close>.
  When \<open>row_id_start > 1\<close> and the sheet is found, the first \<open>GET\<close> of the run asks
  for row 1 of the columns; when that request fails the run fails at once, with this one
  \<open>GET\<close> and no wait in its trace. When the run returns \<open>data_all\<close>, the requests that
  returned rows are, in order, the header request (when \<open>row_id_start > 1\<close>) and then
  one request per window, and \<open>data_all\<close> is the concatenation of their rows in that
  order. Reading rows 5 to 24 in batches of 10 asks for row 1, rows 5 to 14 and rows 15
  to 24, and against a remote that returns every row asked for \<open>data_all\<close> has 21 rows.
\<close>

theorem read_plan:
  assumes "row_id_start \<le> row_id_end" and "0 < batch_size"
  shows
   "(let windows = read_windows row_id_start row_id_end batch_size; cnt = length windows
     in windows = map (\<lambda>k. (row_id_start + int k * batch_size,
                       min (row_id_start + int k * batch_size + batch_size - 1) row_id_end)) [0..<cnt] \<and>
        0 < cnt \<and>
        (int cnt - 1) * batch_size < row_id_end - row_id_start + 1 \<and>
        row_id_end - row_id_start + 1 \<le> int cnt * batch_size \<and>
        fst (hd windows) = row_id_start \<and> snd (last windows) = row_id_end \<and>
        (\<forall>k. Suc k < cnt \<longrightarrow> fst (windows ! Suc k) = snd (windows ! k) + 1)) \<and>
    (\<forall>tr0 sheet_id.
       connect R sheet_name = (tr0, Inr sheet_id) \<and> 1 < row_id_start \<longrightarrow>
       (let head = head_section_url sheet_id col_id_start col_id_end;
            run = load_data_all R sheet_name row_id_start row_id_end col_id_start col_id_end batch_size
        in (\<exists>rest. fst run = tr0 @ Get head (get_reply R 0 head) # rest) \<and>
           (get_reply R 0 head = None \<longrightarrow>
              run = (tr0 @ [Get head None], Inl (Failed ''load_sheet_data_to_df'' Transport_error))))) \<and>
    (\<forall>tr data_all.
       load_data_all R sheet_name row_id_start row_id_end col_id_start col_id_end batch_size
         = (tr, Inr data_all) \<longrightarrow>
       (\<exists>sheet_id.
          connect R sheet_name = ([Token_request, Sheet_query], Inr sheet_id) \<and>
          map fst (successful_gets tr) =
            (if 1 < row_id_start then [head_section_url sheet_id col_id_start col_id_end] else [])
            @ url_list sheet_id col_id_start col_id_end
                (read_windows row_id_start row_id_end batch_size) \<and>
          data_all = concat (map snd (successful_gets tr))))"
proof (intro conjI)
  show "let windows = read_windows row_id_start row_id_end batch_size; cnt = length windows
     in windows = map (\<lambda>k. (row_id_start + int k * batch_size,
                       min (row_id_start + int k * batch_size + batch_size - 1) row_id_end)) [0..<cnt] \<and>
        0 < cnt \<and>
        (int cnt - 1) * batch_size < row_id_end - row_id_start + 1 \<and>
        row_id_end - row_id_start + 1 \<le> int cnt * batch_size \<and>
        fst (hd windows) = row_id_start \<and> snd (last windows) = row_id_end \<and>
        (\<forall>k. Suc k < cnt \<longrightarrow> fst (windows ! Suc k) = snd (windows ! k) + 1)"
    unfolding Let_def using read_windows_shape [OF assms] by (intro conjI)
next
  have b: "batch_size \<noteq> 0" using assms(2) by simp
  show "\<forall>tr0 sheet_id.
       connect R sheet_name = (tr0, Inr sheet_id) \<and> 1 < row_id_start \<longrightarrow>
       (let head = head_section_url sheet_id col_id_start col_id_end;
            run = load_data_all R sheet_name row_id_start row_id_end col_id_start col_id_end batch_size
        in (\<exists>rest. fst run = tr0 @ Get head (get_reply R 0 head) # rest) \<and>
           (get_reply R 0 head = None \<longrightarrow>
              run = (tr0 @ [Get head None], Inl (Failed ''load_sheet_data_to_df'' Transport_error))))"
    unfolding Let_def using load_data_all_header [OF _ b] by blast
next
  show "\<forall>tr data_all.
       load_data_all R sheet_name row_id_start row_id_end col_id_start col_id_end batch_size
         = (tr, Inr data_all) \<longrightarrow>
       (\<exists>sheet_id.
          connect R sheet_name = ([Token_request, Sheet_query], Inr sheet_id) \<and>
          map fst (successful_gets tr) =
            (if 1 < row_id_start then [head_section_url sheet_id col_id_start col_id_end] else [])
            @ url_list sheet_id col_id_start col_id_end
                (read_windows row_id_start row_id_end batch_size) \<and>
          data_all = concat (map snd (successful_gets tr)))"
    using load_data_all_success by blast
qed

lemma get_attempts_first_ok:
  assumes "get_reply R (gets_issued tr) url = Some rows"
  shows "get_attempts R url [0..<max_retries] tr data_all
           = (tr @ [Get url (Some rows)], Inr (data_all @ rows))"
proof -
  have "0 < max_retries" by (simp add: max_retries_def)
  from get_attempts_last [OF this, of R url tr data_all] assms
  show ?thesis by (simp add: Let_def)
qed

theorem read_plan_witness:
  "read_windows 5 24 10 = [(5, 14), (15, 24)] \<and>
   fst (load_data_all table_remote ''Sheet1'' 5 24 ''A'' ''B'' 10)
     = [Token_request, Sheet_query,
        Get ''sid!A1:B1'' (Some [[CStr ''id'', CStr ''name'']]),
        Get ''sid!A5:B14'' (Some (replicate 10 [CStr ''7'', CNone])),
        Get ''sid!A15:B24'' (Some (replicate 10 [CStr ''7'', CNone]))] \<and>
   snd (load_data_all table_remote ''Sheet1'' 5 24 ''A'' ''B'' 10)
     = Inr ([CStr ''id'', CStr ''name''] # replicate 20 [CStr ''7'', CNone]) \<and>
   length ([CStr ''id'', CStr ''name''] # replicate 20 [CStr ''7'', CNone]) = 21 \<and>
   map fst (successful_gets (fst (load_data_all table_remote ''Sheet1'' 5 24 ''A'' ''B'' 10)))
     = [''sid!A1:B1'', ''sid!A5:B14'', ''sid!A15:B24''] \<and>
   load_data_all dead_remote ''Sheet1'' 5 24 ''A'' ''B'' 10
     = ([Token_request, Sheet_query, Get ''sid!A1:B1'' None],
        Inl (Failed ''load_sheet_data_to_df'' Transport_error))"
proof -
  let ?row = "[CStr ''7'', CNone]"
  let ?run = "load_data_all table_remote ''Sheet1'' 5 24 ''A'' ''B'' 10"
  have h1: "(5::int) \<le> 24" and h2: "(0::int) < 10" by simp_all
  note rp = read_plan [OF h1 h2, unfolded Let_def]
  \<comment> \<open>the windows\<close>
  define c where "c = length (read_windows 5 24 10)"
  from rp [of table_remote "''Sheet1''" "''A''" "''B''", THEN conjunct1, folded c_def]
  have w: "read_windows 5 24 10
        = map (\<lambda>k. (5 + int k * 10, min (5 + int k * 10 + 10 - 1) 24)) [0..<c]"
    and lo: "(int c - 1) * 10 < 24 - 5 + 1" and hi: "24 - 5 + 1 \<le> int c * 10"
    by simp_all
  from lo hi have "c = 2" by arith
  with w have win: "read_windows 5 24 10 = [(5, 14), (15, 24)]"
    by (simp add: upt_conv_Cons)
  \<comment> \<open>the run against the remote that answers\<close>
  have cn: "connect table_remote ''Sheet1'' = ([Token_request, Sheet_query], Inr ''sid'')"
    by (simp add: connect_def table_remote_def quiet_remote_def)
  have g0: "get_reply table_remote 0 url = Some [[CStr ''id'', CStr ''name'']]" for url
    by (simp add: table_remote_def)
  have g1: "0 < n \<Longrightarrow> get_reply table_remote n url = Some (replicate 10 ?row)" for n url
    by (simp add: table_remote_def)
  have urls: "url_list ''sid'' ''A'' ''B'' [(5, 14), (15, 24)] = [''sid!A5:B14'', ''sid!A15:B24'']"
    by (simp add: url_list_def data_range_text_def str_int_def str_nat_eval)
  have hu: "head_section_url ''sid'' ''A'' ''B'' = ''sid!A1:B1''"
    by (simp add: head_section_url_def)
  have run: "?run = ([Token_request, Sheet_query,
        Get ''sid!A1:B1'' (Some [[CStr ''id'', CStr ''name'']]),
        Get ''sid!A5:B14'' (Some (replicate 10 ?row)),
        Get ''sid!A15:B24'' (Some (replicate 10 ?row))],
      Inr ([CStr ''id'', CStr ''name''] # replicate 20 ?row))"
    by (simp add: load_data_all_def cn win urls hu load_header_result g0 g1
        get_attempts_first_ok replicate_add [symmetric])
  let ?tr = "[Token_request, Sheet_query,
        Get ''sid!A1:B1'' (Some [[CStr ''id'', CStr ''name'']]),
        Get ''sid!A5:B14'' (Some (replicate 10 ?row)),
        Get ''sid!A15:B24'' (Some (replicate 10 ?row))]"
  from rp [of table_remote "''Sheet1''" "''A''" "''B''", THEN conjunct2, THEN conjunct2,
      rule_format, OF run]
  obtain sheet_id where
    sc: "connect table_remote ''Sheet1'' = ([Token_request, Sheet_query], Inr sheet_id)" and
    sg: "map fst (successful_gets ?tr) =
            (if (1::int) < 5 then [head_section_url sheet_id ''A'' ''B''] else [])
            @ url_list sheet_id ''A'' ''B'' (read_windows 5 24 10)"
    by (elim exE conjE) (rule that; assumption)
  from sc cn have "sheet_id = ''sid''" by simp
  with sg have "map fst (successful_gets ?tr)
      = [''sid!A1:B1'', ''sid!A5:B14'', ''sid!A15:B24'']"
    by (simp only: win urls hu) simp
  with run have order: "map fst (successful_gets (fst ?run))
      = [''sid!A1:B1'', ''sid!A5:B14'', ''sid!A15:B24'']"
    by (simp only: fst_conv)
  \<comment> \<open>the run against the remote that does not answer\<close>
  have cd: "connect dead_remote ''Sheet1'' = ([Token_request, Sheet_query], Inr ''sid'') \<and> (1::int) < 5"
    by (simp add: connect_def dead_remote_def quiet_remote_def)
  have gd: "get_reply dead_remote 0 (head_section_url ''sid'' ''A'' ''B'') = None"
    by (simp add: dead_remote_def)
  from rp [of dead_remote "''Sheet1''" "''A''" "''B''", THEN conjunct2, THEN conjunct1,
      rule_format, OF cd, THEN conjunct2, THEN mp, OF gd]
  have dead: "load_data_all dead_remote ''Sheet1'' 5 24 ''A'' ''B'' 10
     = ([Token_request, Sheet_query, Get ''sid!A1:B1'' None],
        Inl (Failed ''load_sheet_data_to_df'' Transport_error))"
    by (simp add: hu)
  from win run order dead show ?thesis by simp
qed

section \<open>Cleanup of the rows that were read\<close>

lemma map_nth_filter_upt:
  "map ((!) xs) (filter (\<lambda>j. P (xs ! j)) [0..<length xs]) = filter P xs"
proof (induction xs rule: rev_induct)
  case Nil
  then show ?case by simp
next
  case (snoc x xs)
  have a: "filter (\<lambda>j. P ((xs @ [x]) ! j)) [0..<length xs] = filter (\<lambda>j. P (xs ! j)) [0..<length xs]"
    by (rule filter_cong) (simp_all add: nth_append)
  have b: "map ((!) (xs @ [x])) (filter (\<lambda>j. P (xs ! j)) [0..<length xs])
         = map ((!) xs) (filter (\<lambda>j. P (xs ! j)) [0..<length xs])"
    by (rule map_cong) (auto simp: nth_append)
  show ?case using snoc a b by simp
qed

lemma filter_eq_distinct:
  "distinct xs \<Longrightarrow> t \<in> set xs \<Longrightarrow> filter (\<lambda>x. x = t) xs = [t]"
proof (induction xs)
  case Nil
  then show ?case by simp
next
  case (Cons x xs)
  show ?case
  proof (cases "x = t")
    case True
    with Cons.prems have "t \<notin> set xs" by simp
    then have "filter (\<lambda>x. x = t) xs = []" by (auto simp: filter_empty_conv)
    with True show ?thesis by simp
  next
    case False
    with Cons show ?thesis by simp
  qed
qed

lemma data_frame_columns:
  "data_frame data_values colname_list = Inr mydf \<Longrightarrow> frame_columns mydf = colname_list"
  by (auto simp: data_frame_def Let_def split: if_splits)

lemma to_drop_subset: "filter (\<lambda>l. l \<notin> set cols) (to_drop cols) = []"
  by (auto simp: to_drop_def filter_empty_conv)

lemma not_in_to_drop:
  "j < length cols \<Longrightarrow>
   cols ! j \<notin> set (to_drop cols) \<longleftrightarrow> \<not> (cols ! j = CNone \<or> cols ! j = CStr [] \<or> isna (cols ! j))"
  by (auto simp: to_drop_def)

lemma drop_to_drop:
  "drop_columns (to_drop (frame_columns df)) df =
     Inr (select_columns
            (filter (\<lambda>j. \<not> (frame_columns df ! j = CNone \<or> frame_columns df ! j = CStr []
                            \<or> isna (frame_columns df ! j))) [0..<length (frame_columns df)]) df)"
proof -
  have "filter (\<lambda>j. frame_columns df ! j \<notin> set (to_drop (frame_columns df))) [0..<length (frame_columns df)]
      = filter (\<lambda>j. \<not> (frame_columns df ! j = CNone \<or> frame_columns df ! j = CStr []
                            \<or> isna (frame_columns df ! j))) [0..<length (frame_columns df)]"
    by (rule filter_cong) (simp_all add: not_in_to_drop)
  then show ?thesis by (simp add: drop_columns_def Let_def to_drop_subset)
qed

lemma getitem_columns_distinct:
  assumes "distinct (frame_columns df)" "set labels \<subseteq> set (frame_columns df)"
  shows "\<exists>res. getitem_columns labels df = Inr res \<and> frame_columns res = labels \<and>
               length (frame_values res) = length (frame_values df)"
proof -
  let ?cols = "frame_columns df"
  let ?idx = "concat (map (\<lambda>l. filter (\<lambda>j. ?cols ! j = l) [0..<length ?cols]) labels)"
  have m: "filter (\<lambda>l. l \<notin> set ?cols) labels = []"
    using assms(2) by (auto simp: filter_empty_conv)
  have "map ((!) ?cols) (filter (\<lambda>j. ?cols ! j = l) [0..<length ?cols]) = filter (\<lambda>x. x = l) ?cols"
    for l
    using map_nth_filter_upt [of ?cols "\<lambda>x. x = l"] by simp
  then have "map ((!) ?cols) ?idx = concat (map (\<lambda>l. filter (\<lambda>x. x = l) ?cols) labels)"
    by (simp add: map_concat comp_def)
  also have "\<dots> = concat (map (\<lambda>l. [l]) labels)"
  proof -
    have e: "map (\<lambda>l. filter (\<lambda>x. x = l) ?cols) labels = map (\<lambda>l. [l]) labels"
      using assms by (intro map_cong refl filter_eq_distinct) auto
    show ?thesis unfolding e ..
  qed
  also have "\<dots> = labels" by (induction labels) simp_all
  finally have "frame_columns (select_columns ?idx df) = labels"
    by (simp add: select_columns_def)
  moreover have "length (frame_values (select_columns ?idx df)) = length (frame_values df)"
    by (simp add: select_columns_def)
  moreover have "getitem_columns labels df = Inr (select_columns ?idx df)"
    using m by (simp add: getitem_columns_def Let_def)
  ultimately show ?thesis by blast
qed

lemma load_sheet_data_to_df_assemble:
  assumes "load_data_all R sheet_name row_id_start row_id_end col_id_start col_id_end batch_size
             = (tr, Inr data_all)"
  shows "load_sheet_data_to_df R sheet_name row_id_start row_id_end col_id_start col_id_end
           batch_size target_column_names =
         (tr, case assemble data_all target_column_names of
                Inl e \<Rightarrow> Inl (Failed ''load_sheet_data_to_df'' e) | Inr df \<Rightarrow> Inr df)"
  using assms by (simp add: load_sheet_data_to_df_def split: sum.splits)

text \<open>
  C8. Let row 0 of \<open>data_all\<close> be the labels and the other rows the data, and let the
  DataFrame constructor accept them. Null-like cells (\<open>None\<close>, \<open>NaN\<close>) are what the
  claim calls the empty-marker; the empty text is what it calls blank. Then, without
  target labels, the result keeps exactly the rows that are not null-like in every
  column, in their order, and of these rows exactly the columns whose label is neither
  \<open>None\<close> nor the empty text nor null-like, in their order. With a non-empty list of
  target labels the result is the selection of these labels from the cleaned frame: when
  the cleaned labels are distinct and contain the targets, its columns are the targets in
  the order asked for, over the same rows; when a target is not among the cleaned labels,
  the call fails with the key error that lists the missing targets.
\<close>

theorem assemble_cleanup:
  assumes "data_frame data_values colname_list = Inr mydf"
  shows
   "(let kept_rows = filter (\<lambda>row. \<not> list_all isna row) (frame_values mydf);
         keep = filter (\<lambda>j. \<not> (colname_list ! j = CNone \<or> colname_list ! j = CStr []
                                \<or> isna (colname_list ! j))) [0..<length colname_list];
         cleaned = \<lparr>frame_columns = map ((!) colname_list) keep,
                    frame_values = map (\<lambda>row. map ((!) row) keep) kept_rows\<rparr>
     in frame_columns cleaned
          = filter (\<lambda>c. \<not> (c = CNone \<or> c = CStr [] \<or> isna c)) colname_list \<and>
        assemble (colname_list # data_values) [] = Inr cleaned \<and>
        (target_column_names \<noteq> [] \<longrightarrow>
           assemble (colname_list # data_values) target_column_names
             = getitem_columns target_column_names cleaned) \<and>
        (target_column_names \<noteq> [] \<and> set target_column_names \<subseteq> set (frame_columns cleaned) \<and>
         distinct (frame_columns cleaned) \<longrightarrow>
           (\<exists>res. assemble (colname_list # data_values) target_column_names = Inr res \<and>
                  frame_columns res = target_column_names \<and>
                  length (frame_values res) = length kept_rows)) \<and>
        (target_column_names \<noteq> [] \<and> \<not> set target_column_names \<subseteq> set (frame_columns cleaned) \<longrightarrow>
           assemble (colname_list # data_values) target_column_names
             = Inl (Key_error_labels
                      (filter (\<lambda>l. l \<notin> set (frame_columns cleaned)) target_column_names))))"
proof -
  define kept_rows where "kept_rows = filter (\<lambda>row. \<not> list_all isna row) (frame_values mydf)"
  define keep where "keep = filter (\<lambda>j. \<not> (colname_list ! j = CNone \<or> colname_list ! j = CStr []
                                \<or> isna (colname_list ! j))) [0..<length colname_list]"
  define cleaned where "cleaned = \<lparr>frame_columns = map ((!) colname_list) keep,
                    frame_values = map (\<lambda>row. map ((!) row) keep) kept_rows\<rparr>"
  note fc = data_frame_columns [OF assms]
  have dr: "frame_columns (dropna_rows mydf) = colname_list"
    "frame_values (dropna_rows mydf) = kept_rows"
    by (simp_all add: dropna_rows_def fc kept_rows_def)
  have cl: "drop_columns (to_drop (frame_columns (dropna_rows mydf))) (dropna_rows mydf) = Inr cleaned"
    unfolding drop_to_drop by (simp add: dr select_columns_def cleaned_def keep_def)
  have cols: "frame_columns cleaned
      = filter (\<lambda>c. \<not> (c = CNone \<or> c = CStr [] \<or> isna c)) colname_list"
    unfolding cleaned_def keep_def
    using map_nth_filter_upt [of colname_list "\<lambda>c. \<not> (c = CNone \<or> c = CStr [] \<or> isna c)"]
    by simp
  have a0: "assemble (colname_list # data_values) [] = Inr cleaned"
    using assms cl by (simp add: assemble_def Let_def)
  have a1: "assemble (colname_list # data_values) target_column_names
             = getitem_columns target_column_names cleaned"
    if "target_column_names \<noteq> []"
    using assms cl that by (simp add: assemble_def Let_def)
  have a2: "\<exists>res. assemble (colname_list # data_values) target_column_names = Inr res \<and>
                  frame_columns res = target_column_names \<and>
                  length (frame_values res) = length kept_rows"
    if "target_column_names \<noteq> []" "set target_column_names \<subseteq> set (frame_columns cleaned)"
      "distinct (frame_columns cleaned)"
    using getitem_columns_distinct [OF that(3,2)] a1 [OF that(1)]
    by (simp add: cleaned_def)
  have a3: "assemble (colname_list # data_values) target_column_names
             = Inl (Key_error_labels
                      (filter (\<lambda>l. l \<notin> set (frame_columns cleaned)) target_column_names))"
    if "target_column_names \<noteq> []" "\<not> set target_column_names \<subseteq> set (frame_columns cleaned)"
  proof -
    from that(2) have "filter (\<lambda>l. l \<notin> set (frame_columns cleaned)) target_column_names \<noteq> []"
      by (auto simp: filter_empty_conv)
    then show ?thesis using a1 [OF that(1)] by (simp add: getitem_columns_def Let_def)
  qed
  from cols a0 a1 a2 a3 show ?thesis
    unfolding Let_def kept_rows_def [symmetric] keep_def [symmetric] cleaned_def [symmetric]
    by blast
qed

theorem assemble_cleanup_witness:
  "assemble [[CStr ''id'', CNone, CStr ''name'', CStr ''''],
             [CStr ''1'', CStr ''x'', CStr ''ann'', CNone],
             [CNone, CNone, CNone, CNone],
             [CNone, CStr ''y'', CNone, CNone],
             [CStr ''2'', CNone, CStr ''bob'']] []
     = Inr \<lparr>frame_columns = [CStr ''id'', CStr ''name''],
            frame_values = [[CStr ''1'', CStr ''ann''], [CNone, CNone], [CStr ''2'', CStr ''bob'']]\<rparr> \<and>
   assemble [[CStr ''id'', CNone, CStr ''name'', CStr ''''],
             [CStr ''1'', CStr ''x'', CStr ''ann'', CNone],
             [CNone, CNone, CNone, CNone],
             [CNone, CStr ''y'', CNone, CNone],
             [CStr ''2'', CNone, CStr ''bob'']] [CStr ''name'', CStr ''id'']
     = Inr \<lparr>frame_columns = [CStr ''name'', CStr ''id''],
            frame_values = [[CStr ''ann'', CStr ''1''], [CNone, CNone], [CStr ''bob'', CStr ''2'']]\<rparr> \<and>
   assemble [[CStr ''id'', CNone, CStr ''name'', CStr ''''],
             [CStr ''1'', CStr ''x'', CStr ''ann'', CNone],
             [CNone, CNone, CNone, CNone],
             [CNone, CStr ''y'', CNone, CNone],
             [CStr ''2'', CNone, CStr ''bob'']] [CStr ''zip'', CStr ''id'']
     = Inl (Key_error_labels [CStr ''zip'']) \<and>
   (\<exists>res. assemble [[CStr ''id'', CNone, CStr ''name'', CStr ''''],
             [CStr ''1'', CStr ''x'', CStr ''ann'', CNone],
             [CNone, CNone, CNone, CNone],
             [CNone, CStr ''y'', CNone, CNone],
             [CStr ''2'', CNone, CStr ''bob'']] [CStr ''name'', CStr ''id''] = Inr res \<and>
          frame_columns res = [CStr ''name'', CStr ''id''] \<and> length (frame_values res) = Suc (Suc (Suc 0)))"
proof -
  let ?hdr = "[CStr ''id'', CNone, CStr ''name'', CStr '''']"
  let ?rows = "[[CStr ''1'', CStr ''x'', CStr ''ann'', CNone],
             [CNone, CNone, CNone, CNone],
             [CNone, CStr ''y'', CNone, CNone],
             [CStr ''2'', CNone, CStr ''bob'']]"
  let ?df = "\<lparr>frame_columns = ?hdr,
       frame_values = [[CStr ''1'', CStr ''x'', CStr ''ann'', CNone],
             [CNone, CNone, CNone, CNone],
             [CNone, CStr ''y'', CNone, CNone],
             [CStr ''2'', CNone, CStr ''bob'', CNone]]\<rparr>"
  let ?cleaned = "\<lparr>frame_columns = [CStr ''id'', CStr ''name''],
            frame_values = [[CStr ''1'', CStr ''ann''], [CNone, CNone], [CStr ''2'', CStr ''bob'']]\<rparr>"
  have df: "data_frame ?rows ?hdr = Inr ?df"
    by (simp add: data_frame_def Let_def)
  have up: "[0..<4] = [0, 1, 2, 3]" "[0..<2] = [0, 1]" by (simp_all add: upt_conv_Cons)
  note ac = assemble_cleanup [OF df, unfolded Let_def]
  have 1: "assemble (?hdr # ?rows) [] = Inr ?cleaned"
    using ac [of "[]", THEN conjunct2, THEN conjunct1] by (simp add: up)
  have "assemble (?hdr # ?rows) [CStr ''name'', CStr ''id'']
      = getitem_columns [CStr ''name'', CStr ''id''] ?cleaned"
    using ac [of "[CStr ''name'', CStr ''id'']", THEN conjunct2, THEN conjunct2, THEN conjunct1]
    by (simp add: up)
  then have 2: "assemble (?hdr # ?rows) [CStr ''name'', CStr ''id'']
     = Inr \<lparr>frame_columns = [CStr ''name'', CStr ''id''],
            frame_values = [[CStr ''ann'', CStr ''1''], [CNone, CNone], [CStr ''bob'', CStr ''2'']]\<rparr>"
    by (simp add: getitem_columns_def select_columns_def Let_def up)
  have 3: "assemble (?hdr # ?rows) [CStr ''zip'', CStr ''id''] = Inl (Key_error_labels [CStr ''zip''])"
    using ac [of "[CStr ''zip'', CStr ''id'']", THEN conjunct2, THEN conjunct2, THEN conjunct2,
        THEN conjunct2]
    by (simp add: up)
  have 4: "\<exists>res. assemble (?hdr # ?rows) [CStr ''name'', CStr ''id''] = Inr res \<and>
          frame_columns res = [CStr ''name'', CStr ''id''] \<and> length (frame_values res) = Suc (Suc (Suc 0))"
    using ac [of "[CStr ''name'', CStr ''id'']", THEN conjunct2, THEN conjunct2, THEN conjunct2,
        THEN conjunct1]
    by (simp add: up)
  from 1 2 3 4 show ?thesis by (intro conjI)
qed
end
